theory Spec2Isabelle
  imports Complex_Main
begin

section \<open>Array4D: a dense rank-4 array (array4d.h)\<close>

text \<open>
  The embedding follows \<^verbatim>\<open>src/array4d.h\<close>. The class template \<^verbatim>\<open>Array4D<T>\<close> becomes a
  record over an element type \<open>'a\<close>; \<^verbatim>\<open>int64\<close> dimensions and coordinates are integers
  (they may be negative, as in the source), and the product of the four dimensions, which
  the constructors compute in \<^verbatim>\<open>int64\<close>, wraps around at 64 bits as the compiled code
  does. The element type keeps its own arithmetic: nothing is assumed of \<open>+\<close> and \<open>*\<close>
  on \<open>'a\<close> unless a statement says so. A fatal \<^verbatim>\<open>CHECK\<close> is an error value named after the
  error kind the specification gives to that check; undefined behaviour of the C++
  (an out-of-bounds vector access, dereferencing the begin iterator of an empty list)
  is the explicit outcome \<open>Undefined\<close>.
\<close>

subsection \<open>Errors and outcomes\<close>

datatype error =
    ShapeMismatch      \<comment> \<open>a failed \<^verbatim>\<open>CHECK_EQ\<close> on dimensions or lengths, or \<^verbatim>\<open>assert\<close> on shapes\<close>
  | IndexOutOfRange    \<comment> \<open>a failed \<^verbatim>\<open>CHECK_LT\<close> in \<^verbatim>\<open>operator()\<close>\<close>
  | RaggedShape        \<comment> \<open>a failed \<^verbatim>\<open>DCHECK_EQ\<close> in the nested-list constructor\<close>
  | LengthError        \<comment> \<open>\<^verbatim>\<open>std::vector\<close> asked for a negative (huge unsigned) size\<close>
  | Undefined          \<comment> \<open>undefined behaviour\<close>

text \<open>
  Modelled from the spec: the checking macros \<^verbatim>\<open>CHECK_EQ\<close>, \<^verbatim>\<open>CHECK_LT\<close> and \<^verbatim>\<open>DCHECK_EQ\<close>
  (logging.h) are not part of the sources. A failed \<^verbatim>\<open>CHECK\<close> is the fail-fast failure the
  specification describes and ends the run in every build. \<^verbatim>\<open>DCHECK_EQ\<close> is the debug
  check: the same failure in a debug build, and no code at all when \<^verbatim>\<open>NDEBUG\<close> is
  defined, which is also how the standard \<^verbatim>\<open>assert\<close> behaves. The operations that use
  \<^verbatim>\<open>DCHECK_EQ\<close> or \<^verbatim>\<open>assert\<close> take the build as a parameter \<open>ndebug\<close>.

  A mutating operation either completes with the new state or aborts; the abort carries
  the state reached when the process stopped, so that "nothing was written" can be stated.
\<close>

datatype 's outcome = Done 's | Abort error 's

text \<open>A counted \<^verbatim>\<open>for\<close> loop: the body runs for each index in order and an abort ends the loop.\<close>

fun for_loop :: "('i \<Rightarrow> 's \<Rightarrow> 's outcome) \<Rightarrow> 'i list \<Rightarrow> 's \<Rightarrow> 's outcome" where
  "for_loop body [] s = Done s"
| "for_loop body (i # is) s =
     (case body i s of Done s' \<Rightarrow> for_loop body is s' | Abort e s' \<Rightarrow> Abort e s')"

subsection \<open>The container\<close>

record 'a array4d =
  planes :: int
  depth :: int
  height :: int
  width :: int
  vals :: "'a list"

text \<open>
  The record fields stand for the private members \<^verbatim>\<open>planes_\<close>, \<^verbatim>\<open>depth_\<close>, \<^verbatim>\<open>height_\<close>,
  \<^verbatim>\<open>width_\<close> and \<^verbatim>\<open>values_\<close>; the selectors \<open>planes\<close>, \<open>depth\<close>, \<open>height\<close> and \<open>width\<close> are
  at the same time the accessors of those names.
\<close>

definition n1 :: "'a array4d \<Rightarrow> int" where "n1 a = planes a"
definition n2 :: "'a array4d \<Rightarrow> int" where "n2 a = depth a"
definition n3 :: "'a array4d \<Rightarrow> int" where "n3 a = height a"
definition n4 :: "'a array4d \<Rightarrow> int" where "n4 a = width a"

definition num_elements :: "'a array4d \<Rightarrow> int" where
  "num_elements a = int (length (vals a))"

definition flatten :: "'a array4d \<Rightarrow> 'a list" where
  "flatten a = vals a"

text \<open>The invariant of the data model: the backing storage has one slot per coordinate.\<close>

definition well_formed :: "'a array4d \<Rightarrow> bool" where
  "well_formed a \<longleftrightarrow> int (length (vals a)) = n1 a * n2 a * n3 a * n4 a"

subsection \<open>Constructors\<close>

text \<open>
  The constructors evaluate \<^verbatim>\<open>planes * depth * height * width\<close> in \<^verbatim>\<open>int64\<close>, from left to
  right. \<open>int64 x\<close> is the value a 64-bit two's complement register holds for \<open>x\<close>
  (C++ leaves signed overflow undefined; the compiled multiplication wraps), and
  \<open>in_int64 x\<close> says that \<open>x\<close> is such a value already.
\<close>

definition int64 :: "int \<Rightarrow> int" where
  "int64 x = (x + 9223372036854775808) mod 18446744073709551616 - 9223372036854775808"

definition in_int64 :: "int \<Rightarrow> bool" where
  "in_int64 x \<longleftrightarrow> - 9223372036854775808 \<le> x \<and> x < 9223372036854775808"

definition dims_product :: "int \<Rightarrow> int \<Rightarrow> int \<Rightarrow> int \<Rightarrow> int" where
  "dims_product np nd nh nw = int64 (int64 (int64 (np * nd) * nh) * nw)"

text \<open>
  \<^verbatim>\<open>values_(planes * depth * height * width)\<close>: the vector is value-initialised (zero for
  the arithmetic element types); a negative product converts to a size beyond
  \<^verbatim>\<open>max_size()\<close> and the vector constructor throws.
\<close>

definition Array4D :: "int \<Rightarrow> int \<Rightarrow> int \<Rightarrow> int \<Rightarrow> error + ('a::zero) array4d" where
  "Array4D np nd nh nw =
     (if dims_product np nd nh nw < 0 then Inl LengthError
      else Inr \<lparr>planes = np, depth = nd, height = nh, width = nw,
                vals = replicate (nat (dims_product np nd nh nw)) 0\<rparr>)"

definition Array4D_value :: "int \<Rightarrow> int \<Rightarrow> int \<Rightarrow> int \<Rightarrow> 'a \<Rightarrow> error + 'a array4d" where
  "Array4D_value np nd nh nw v =
     (if dims_product np nd nh nw < 0 then Inl LengthError
      else Inr \<lparr>planes = np, depth = nd, height = nh, width = nw,
                vals = replicate (nat (dims_product np nd nh nw)) v\<rparr>)"

text \<open>
  From a \<^verbatim>\<open>std::vector\<close>: the vector is copied, then its size is compared with the
  \<^verbatim>\<open>int64\<close> product.
\<close>

definition Array4D_vector :: "int \<Rightarrow> int \<Rightarrow> int \<Rightarrow> int \<Rightarrow> 'a list \<Rightarrow> error + 'a array4d" where
  "Array4D_vector np nd nh nw input_array =
     (if dims_product np nd nh nw \<noteq> int (length input_array) then Inl ShapeMismatch
      else Inr \<lparr>planes = np, depth = nd, height = nh, width = nw,
                vals = input_array\<rparr>)"

definition SetValues :: "'a list \<Rightarrow> 'a array4d \<Rightarrow> 'a array4d outcome" where
  "SetValues container a =
     (if int (length container) \<noteq> num_elements a then Abort ShapeMismatch a
      else Done (a\<lparr>vals := container\<rparr>))"

text \<open>From any container: the sized constructor, then \<^verbatim>\<open>SetValues\<close>.\<close>

definition Array4D_container ::
  "int \<Rightarrow> int \<Rightarrow> int \<Rightarrow> int \<Rightarrow> ('a::zero) list \<Rightarrow> error + 'a array4d" where
  "Array4D_container np nd nh nw vs =
     (case Array4D np nd nh nw of
        Inl e \<Rightarrow> Inl e
      | Inr a \<Rightarrow> (case SetValues vs a of Done a' \<Rightarrow> Inr a' | Abort e _ \<Rightarrow> Inl e))"

subsection \<open>Element access\<close>

text \<open>
  \<^verbatim>\<open>operator()\<close>: four \<^verbatim>\<open>CHECK_LT\<close> (upper bounds only), then \<^verbatim>\<open>values_[...]\<close>, which is
  undefined outside the vector. \<open>At\<close> reads through the returned reference and \<open>At_put\<close>
  assigns through it.
\<close>

definition linear_index :: "'a array4d \<Rightarrow> int \<Rightarrow> int \<Rightarrow> int \<Rightarrow> int \<Rightarrow> int" where
  "linear_index a p d h w =
     p * (depth a * height a * width a) + d * (height a * width a) + h * (width a) + w"

definition At :: "'a array4d \<Rightarrow> int \<Rightarrow> int \<Rightarrow> int \<Rightarrow> int \<Rightarrow> error + 'a" where
  "At a p d h w =
     (if \<not> p < planes a then Inl IndexOutOfRange
      else if \<not> d < depth a then Inl IndexOutOfRange
      else if \<not> h < height a then Inl IndexOutOfRange
      else if \<not> w < width a then Inl IndexOutOfRange
      else let i = linear_index a p d h w in
        if 0 \<le> i \<and> i < int (length (vals a)) then Inr (vals a ! nat i)
        else Inl Undefined)"

definition At_put :: "int \<Rightarrow> int \<Rightarrow> int \<Rightarrow> int \<Rightarrow> 'a \<Rightarrow> 'a array4d \<Rightarrow> 'a array4d outcome" where
  "At_put p d h w v a =
     (if \<not> p < planes a then Abort IndexOutOfRange a
      else if \<not> d < depth a then Abort IndexOutOfRange a
      else if \<not> h < height a then Abort IndexOutOfRange a
      else if \<not> w < width a then Abort IndexOutOfRange a
      else let i = linear_index a p d h w in
        if 0 \<le> i \<and> i < int (length (vals a))
        then Done (a\<lparr>vals := (vals a)[nat i := v]\<rparr>)
        else Abort Undefined a)"


subsection \<open>Bulk fills\<close>

text \<open>\<^verbatim>\<open>for (int64 i = 0; i < n; ++i)\<close> visits the indices \<open>0, ..., n - 1\<close>.\<close>

definition range0 :: "int \<Rightarrow> int list" where
  "range0 n = [0..n - 1]"

definition state_of :: "'s outcome \<Rightarrow> 's" where
  "state_of r = (case r of Done s \<Rightarrow> s | Abort e s \<Rightarrow> s)"

text \<open>\<^verbatim>\<open>std::fill\<close> assigns the value to every slot.\<close>

definition Fill :: "'a \<Rightarrow> 'a array4d \<Rightarrow> 'a array4d" where
  "Fill v a = a\<lparr>vals := map (\<lambda>_. v) (vals a)\<rparr>"

text \<open>\<^verbatim>\<open>std::iota\<close>: assign the running value, then increment it.\<close>

fun iota :: "'a list \<Rightarrow> ('a::{one,plus}) \<Rightarrow> 'a list" where
  "iota [] v = []"
| "iota (x # xs) v = v # iota xs (v + 1)"

definition FillIota :: "('a::{one,plus}) \<Rightarrow> 'a array4d \<Rightarrow> 'a array4d" where
  "FillIota v a = a\<lparr>vals := iota (vals a) v\<rparr>"

text \<open>
  \<^verbatim>\<open>FillRandom\<close>. The generator \<^verbatim>\<open>std::mt19937\<close> and \<^verbatim>\<open>std::normal_distribution<double>\<close>
  belong to the standard library, so they are parameters: \<open>init seed mean stddev\<close> is the
  joint state of the freshly seeded generator and the freshly built distribution,
  \<open>sample\<close> is one call \<^verbatim>\<open>distribution(g)\<close>, which returns a double and advances that
  state, \<open>to_double\<close> is \<^verbatim>\<open>static_cast<double>\<close> and \<open>cast\<close> is \<^verbatim>\<open>static_cast<T>\<close>.
  The range-for assigns one sample to each slot in order.
\<close>

fun random_loop :: "('st \<Rightarrow> real \<times> 'st) \<Rightarrow> (real \<Rightarrow> 'a) \<Rightarrow> 'a list \<Rightarrow> 'st \<Rightarrow> 'a list" where
  "random_loop sample cast [] g = []"
| "random_loop sample cast (v # vs) g =
     (case sample g of (x, g') \<Rightarrow> cast x # random_loop sample cast vs g')"

definition FillRandom ::
  "(int \<Rightarrow> real \<Rightarrow> real \<Rightarrow> 'st) \<Rightarrow> ('st \<Rightarrow> real \<times> 'st) \<Rightarrow> ('a \<Rightarrow> real) \<Rightarrow> (real \<Rightarrow> 'a)
     \<Rightarrow> 'a \<Rightarrow> real \<Rightarrow> int \<Rightarrow> 'a array4d \<Rightarrow> 'a array4d" where
  "FillRandom init sample to_double cast v mean seed a =
     a\<lparr>vals := random_loop sample cast (vals a) (init seed mean (to_double v))\<rparr>"

text \<open>
  \<^verbatim>\<open>FillWithMultiples\<close> and \<^verbatim>\<open>mul\<close> take a \<^verbatim>\<open>float\<close> multiplier whatever \<open>T\<close> is. The
  arithmetic that mixes \<^verbatim>\<open>float\<close> with \<^verbatim>\<open>int64\<close> or \<open>T\<close> belongs to the language, so it is
  a parameter: \<open>multiple i m\<close> is \<^verbatim>\<open>i * multiplier\<close>, computed in \<^verbatim>\<open>float\<close> and converted
  to \<open>T\<close> by the assignment, and \<open>scale v m\<close> is the value \<^verbatim>\<open>v *= multiplier\<close> leaves in a
  slot that held \<open>v\<close>. Both loops run over \<open>i\<close> below \<^verbatim>\<open>num_elements()\<close>.
\<close>

definition FillWithMultiples :: "(int \<Rightarrow> 'f \<Rightarrow> 'a) \<Rightarrow> 'f \<Rightarrow> 'a array4d \<Rightarrow> 'a array4d" where
  "FillWithMultiples multiple multiplier a =
     a\<lparr>vals := fold (\<lambda>i xs. xs[nat i := multiple i multiplier]) (range0 (num_elements a)) (vals a)\<rparr>"

definition mul :: "('a \<Rightarrow> 'f \<Rightarrow> 'a) \<Rightarrow> 'f \<Rightarrow> 'a array4d \<Rightarrow> 'a array4d" where
  "mul scale multiplier a =
     a\<lparr>vals := fold (\<lambda>i xs. xs[nat i := scale (xs ! nat i) multiplier]) (range0 (num_elements a)) (vals a)\<rparr>"

text \<open>
  Modelled from the spec: \<^verbatim>\<open>Array2D\<close> (array2d.h) is not part of the sources; the
  specification describes it as a 2D dense array exposing \<^verbatim>\<open>height()\<close>, \<^verbatim>\<open>width()\<close> and
  \<^verbatim>\<open>(row, col)\<close> element access. Its element access is a function that may fail.
\<close>

record 'a array2d =
  height2 :: int
  width2 :: int
  at2 :: "int \<Rightarrow> int \<Rightarrow> error + 'a"

definition assign_from :: "int \<Rightarrow> int \<Rightarrow> int \<Rightarrow> int \<Rightarrow> error + 'a \<Rightarrow> 'a array4d \<Rightarrow> 'a array4d outcome" where
  "assign_from p d h w src a = (case src of Inl e \<Rightarrow> Abort e a | Inr v \<Rightarrow> At_put p d h w v a)"

definition FillWithYX :: "'a array2d \<Rightarrow> 'a array4d \<Rightarrow> 'a array4d outcome" where
  "FillWithYX value a =
     (if height2 value \<noteq> height a then Abort ShapeMismatch a
      else if width2 value \<noteq> width a then Abort ShapeMismatch a
      else for_loop (\<lambda>p. for_loop (\<lambda>d. for_loop (\<lambda>h. for_loop (\<lambda>w.
             assign_from p d h w (at2 value h w))
           (range0 (width a))) (range0 (height a))) (range0 (depth a))) (range0 (planes a)) a)"

definition FillWithPZ :: "'a array2d \<Rightarrow> 'a array4d \<Rightarrow> 'a array4d outcome" where
  "FillWithPZ value a =
     (if height2 value \<noteq> planes a then Abort ShapeMismatch a
      else if width2 value \<noteq> depth a then Abort ShapeMismatch a
      else for_loop (\<lambda>h. for_loop (\<lambda>w. for_loop (\<lambda>p. for_loop (\<lambda>d.
             assign_from p d h w (at2 value p d))
           (range0 (depth a))) (range0 (planes a))) (range0 (width a))) (range0 (height a)) a)"

text \<open>
  The \<^verbatim>\<open>LOG(INFO)\<close> lines do not touch the container. \<open>from_index n\<close> is the value a slot
  of type \<open>T\<close> receives from \<^verbatim>\<open>float this_val = n\<close>.
\<close>

definition FillWithMinorDimNum :: "(int \<Rightarrow> 'a) \<Rightarrow> 'a array4d \<Rightarrow> 'a array4d outcome" where
  "FillWithMinorDimNum from_index a =
     for_loop (\<lambda>h. for_loop (\<lambda>w. for_loop (\<lambda>p. for_loop (\<lambda>d.
         At_put p d h w (from_index (p * depth a + d)))
       (range0 (depth a))) (range0 (planes a))) (range0 (width a))) (range0 (height a)) a"

subsection \<open>The base class\<close>

text \<open>
  Modelled from the spec: the base class \<^verbatim>\<open>TensorArray\<close> (tensor_array.h) is not part of
  the sources. Every constructor passes it the same four dimensions, and the
  specification describes it as a shape type that only stores them, so \<^verbatim>\<open>size(i)\<close>,
  \<^verbatim>\<open>Batch()\<close>, \<^verbatim>\<open>Depth()\<close>, \<^verbatim>\<open>Height()\<close> and \<^verbatim>\<open>Width()\<close> read the dimensions of the array.
\<close>

definition size_dim :: "'a array4d \<Rightarrow> nat \<Rightarrow> int" where
  "size_dim a i = [planes a, depth a, height a, width a] ! i"

definition Batch :: "'a array4d \<Rightarrow> int" where "Batch a = planes a"
definition Depth :: "'a array4d \<Rightarrow> int" where "Depth a = depth a"
definition Height :: "'a array4d \<Rightarrow> int" where "Height a = height a"
definition Width :: "'a array4d \<Rightarrow> int" where "Width a = width a"

subsection \<open>Elementwise product and comparison\<close>

text \<open>
  \<^verbatim>\<open>operator*\<close>. With equal dimensions every slot is multiplied by the slot of \<open>rhs\<close> at
  the same index (reading \<open>rhs\<close> outside its vector is undefined). Otherwise the code
  runs \<^verbatim>\<open>assert(false)\<close>, which aborts unless the translation unit is compiled with
  \<^verbatim>\<open>NDEBUG\<close>, where the statement is empty and the call returns normally.
\<close>

definition mult_slot :: "('a::times) list \<Rightarrow> int \<Rightarrow> 'a array4d \<Rightarrow> 'a array4d outcome" where
  "mult_slot rhs_values i a =
     (if i < int (length rhs_values)
      then Done (a\<lparr>vals := (vals a)[nat i := vals a ! nat i * rhs_values ! nat i]\<rparr>)
      else Abort Undefined a)"

definition op_mult :: "bool \<Rightarrow> ('a::times) array4d \<Rightarrow> 'a array4d \<Rightarrow> 'a array4d outcome" where
  "op_mult ndebug rhs a =
     (if size_dim rhs 0 = size_dim a 0 \<and> size_dim rhs 1 = size_dim a 1
        \<and> size_dim rhs 2 = size_dim a 2 \<and> size_dim rhs 3 = size_dim a 3
      then for_loop (mult_slot (vals rhs)) (range0 (int (length (vals a)))) a
      else if ndebug then Done a
      else Abort ShapeMismatch a)"

text \<open>
  \<^verbatim>\<open>operator==\<close>. The bound is the \<^verbatim>\<open>float\<close> literal \<^verbatim>\<open>0.000001f\<close>, whose value is
  \<open>8796093 / 2 ^ 43\<close>, a little below \<open>1 / 1000000\<close>. Subtraction, absolute value and
  comparison are those of the element type; no law is assumed of them.
\<close>

definition tolerance :: "'a::{inverse,numeral}" where
  "tolerance = 8796093 / 8796093022208"

function eq_loop ::
  "('a::{minus,abs,ord,inverse,numeral}) list \<Rightarrow> 'a list \<Rightarrow> nat \<Rightarrow> bool \<Rightarrow> bool" where
  "eq_loop xs ys i result =
     (if i < length xs \<and> result
      then eq_loop xs ys (i + 1) (\<bar>xs ! i - ys ! i\<bar> < tolerance)
      else result)"
  by pat_completeness auto
termination
  by (relation "measure (\<lambda>(xs, ys, i, result). length xs - i)") auto

declare eq_loop.simps [simp del]

definition op_eq :: "('a::{minus,abs,ord,inverse,numeral}) array4d \<Rightarrow> 'a array4d \<Rightarrow> bool" where
  "op_eq a rhs =
     (let result = (num_elements a = num_elements rhs);
          result = (result \<and> planes a = planes rhs \<and> depth a = depth rhs
                      \<and> height a = height rhs \<and> width a = width rhs)
      in if result then eq_loop (vals a) (vals rhs) 0 result else result)"


subsection \<open>The nested-list constructor\<close>

text \<open>
  The delegated sized constructor reads \<^verbatim>\<open>values.begin()->size()\<close>,
  \<^verbatim>\<open>values.begin()->begin()->size()\<close> and \<^verbatim>\<open>values.begin()->begin()->begin()->size()\<close>:
  each \<^verbatim>\<open>begin()\<close> that is dereferenced must belong to a non-empty list. The loops then
  walk the literal with the counters \<open>plane\<close>, \<open>depth\<close>, \<open>height\<close> and \<open>width\<close>
  (\<open>enumerate 0\<close> pairs each item with its counter). \<^verbatim>\<open>DCHECK_EQ\<close> is the debug-only
  check of the logging library: it is a fatal check unless the code is compiled with
  \<^verbatim>\<open>NDEBUG\<close>, where it is compiled out. The flag \<open>ndebug\<close> says which build is run.
\<close>

definition fill_height ::
  "bool \<Rightarrow> int \<Rightarrow> int \<Rightarrow> int \<Rightarrow> 'a list \<Rightarrow> 'a array4d \<Rightarrow> 'a array4d outcome" where
  "fill_height ndebug p d h values_in_height a =
     (if \<not> ndebug \<and> int (length values_in_height) \<noteq> width a then Abort RaggedShape a
      else for_loop (\<lambda>(w, element_value). At_put p d h (int w) element_value)
             (enumerate 0 values_in_height) a)"

definition fill_depth ::
  "bool \<Rightarrow> int \<Rightarrow> int \<Rightarrow> 'a list list \<Rightarrow> 'a array4d \<Rightarrow> 'a array4d outcome" where
  "fill_depth ndebug p d values_in_depth a =
     (if \<not> ndebug \<and> int (length values_in_depth) \<noteq> height a then Abort RaggedShape a
      else for_loop (\<lambda>(h, values_in_height). fill_height ndebug p d (int h) values_in_height)
             (enumerate 0 values_in_depth) a)"

definition fill_plane ::
  "bool \<Rightarrow> int \<Rightarrow> 'a list list list \<Rightarrow> 'a array4d \<Rightarrow> 'a array4d outcome" where
  "fill_plane ndebug p values_in_plane a =
     (if \<not> ndebug \<and> int (length values_in_plane) \<noteq> depth a then Abort RaggedShape a
      else for_loop (\<lambda>(d, values_in_depth). fill_depth ndebug p (int d) values_in_depth)
             (enumerate 0 values_in_plane) a)"

definition Array4D_nested :: "bool \<Rightarrow> ('a::zero) list list list list \<Rightarrow> error + 'a array4d" where
  "Array4D_nested ndebug values =
     (case values of [] \<Rightarrow> Inl Undefined | first_plane # _ \<Rightarrow>
      case first_plane of [] \<Rightarrow> Inl Undefined | first_depth # _ \<Rightarrow>
      case first_depth of [] \<Rightarrow> Inl Undefined | first_height # _ \<Rightarrow>
      case Array4D (int (length values)) (int (length first_plane))
                   (int (length first_depth)) (int (length first_height)) of
        Inl e \<Rightarrow> Inl e
      | Inr a \<Rightarrow>
         (case for_loop (\<lambda>(p, values_in_plane). fill_plane ndebug (int p) values_in_plane)
                 (enumerate 0 values) a of
            Done a' \<Rightarrow> Inr a'
          | Abort e _ \<Rightarrow> Inl e))"

subsection \<open>Matrix multiplication\<close>

text \<open>
  \<^verbatim>\<open>MatrixMul\<close> takes its three arrays by reference, and nothing stops a caller from
  passing the same object twice, so the arrays live in a store and the function takes
  their addresses. The three \<^verbatim>\<open>assert\<close>s repeat the first three \<^verbatim>\<open>CHECK_EQ\<close>s and are
  never reached with a false condition. Writes change elements only, so every loop
  bound keeps the value it has on entry.
\<close>

type_synonym 'a store = "nat \<Rightarrow> 'a array4d"

definition store_put ::
  "nat \<Rightarrow> int \<Rightarrow> int \<Rightarrow> int \<Rightarrow> int \<Rightarrow> 'a \<Rightarrow> 'a store \<Rightarrow> 'a store outcome" where
  "store_put r p d h w v S =
     (case At_put p d h w v (S r) of
        Done a \<Rightarrow> Done (S(r := a))
      | Abort e a \<Rightarrow> Abort e S)"

text \<open>\<^verbatim>\<open>result(b, d, i, j) += lhs(b, d, i, r) * rhs(b, d, r, j)\<close>\<close>

definition accumulate ::
  "nat \<Rightarrow> nat \<Rightarrow> nat \<Rightarrow> int \<Rightarrow> int \<Rightarrow> int \<Rightarrow> int \<Rightarrow> int
     \<Rightarrow> ('a::{plus,times}) store \<Rightarrow> 'a store outcome" where
  "accumulate lhs rhs result b d i j r S =
     (case At (S lhs) b d i r of Inl e \<Rightarrow> Abort e S | Inr x \<Rightarrow>
      case At (S rhs) b d r j of Inl e \<Rightarrow> Abort e S | Inr y \<Rightarrow>
      case At (S result) b d i j of Inl e \<Rightarrow> Abort e S | Inr acc \<Rightarrow>
        store_put result b d i j (acc + x * y) S)"

text \<open>\<^verbatim>\<open>result(b, d, i, j) = 0.f\<close>, then the loop over \<open>r\<close>.\<close>

definition cell ::
  "nat \<Rightarrow> nat \<Rightarrow> nat \<Rightarrow> int \<Rightarrow> int \<Rightarrow> int \<Rightarrow> int
     \<Rightarrow> ('a::{zero,plus,times}) store \<Rightarrow> 'a store outcome" where
  "cell lhs rhs result b d i j S =
     (case store_put result b d i j 0 S of
        Abort e S' \<Rightarrow> Abort e S'
      | Done S' \<Rightarrow> for_loop (accumulate lhs rhs result b d i j) (range0 (Width (S lhs))) S')"

definition MatrixMul ::
  "nat \<Rightarrow> nat \<Rightarrow> nat \<Rightarrow> ('a::{zero,plus,times}) store \<Rightarrow> 'a store outcome" where
  "MatrixMul lhs rhs result S =
     (if Width (S lhs) \<noteq> Height (S rhs) then Abort ShapeMismatch S
      else if Height (S lhs) \<noteq> Height (S result) then Abort ShapeMismatch S
      else if Width (S rhs) \<noteq> Width (S result) then Abort ShapeMismatch S
      else if Depth (S lhs) \<noteq> Depth (S rhs) then Abort ShapeMismatch S
      else if Depth (S rhs) \<noteq> Depth (S result) then Abort ShapeMismatch S
      else if Batch (S lhs) \<noteq> Batch (S rhs) then Abort ShapeMismatch S
      else if Batch (S rhs) \<noteq> Batch (S result) then Abort ShapeMismatch S
      else for_loop (\<lambda>b. for_loop (\<lambda>d. for_loop (\<lambda>i. for_loop (\<lambda>j.
             cell lhs rhs result b d i j)
           (range0 (Width (S rhs)))) (range0 (Height (S lhs))))
           (range0 (Depth (S result)))) (range0 (Batch (S result))) S)"


subsection \<open>Vocabulary of the statements\<close>

text \<open>The slot a coordinate denotes, valid coordinates, and equal shapes.\<close>

definition elem :: "'a array4d \<Rightarrow> int \<Rightarrow> int \<Rightarrow> int \<Rightarrow> int \<Rightarrow> 'a" where
  "elem a p d h w = vals a ! nat (linear_index a p d h w)"

definition in_range :: "'a array4d \<Rightarrow> int \<Rightarrow> int \<Rightarrow> int \<Rightarrow> int \<Rightarrow> bool" where
  "in_range a p d h w \<longleftrightarrow>
     0 \<le> p \<and> p < planes a \<and> 0 \<le> d \<and> d < depth a \<and> 0 \<le> h \<and> h < height a \<and> 0 \<le> w \<and> w < width a"

definition same_shape :: "'a array4d \<Rightarrow> 'a array4d \<Rightarrow> bool" where
  "same_shape a b \<longleftrightarrow> planes a = planes b \<and> depth a = depth b \<and> height a = height b
     \<and> width a = width b \<and> length (vals a) = length (vals b)"

text \<open>The seven \<^verbatim>\<open>CHECK_EQ\<close> preconditions of \<^verbatim>\<open>MatrixMul\<close>.\<close>

definition shapes_agree :: "'a array4d \<Rightarrow> 'a array4d \<Rightarrow> 'a array4d \<Rightarrow> bool" where
  "shapes_agree L R Z \<longleftrightarrow>
     Width L = Height R \<and> Height L = Height Z \<and> Width R = Width Z
     \<and> Depth L = Depth R \<and> Depth R = Depth Z \<and> Batch L = Batch R \<and> Batch R = Batch Z"

text \<open>
  The entry \<open>(i, j)\<close> of the product of the matrices at \<open>(b, d)\<close>: the sum over \<open>r\<close> of
  \<open>L(b,d,i,r) * R(b,d,r,j)\<close>, taken in the element type from zero in increasing \<open>r\<close>.
\<close>

definition matrix_product ::
  "('a::{zero,plus,times}) array4d \<Rightarrow> 'a array4d \<Rightarrow> int \<Rightarrow> int \<Rightarrow> int \<Rightarrow> int \<Rightarrow> 'a" where
  "matrix_product L R b d i j =
     foldl (\<lambda>acc r. acc + elem L b d i r * elem R b d r j) 0 (range0 (Width L))"

text \<open>A store holding the listed objects at the addresses \<open>0, 1, ...\<close>.\<close>

definition store_of :: "'a array4d list \<Rightarrow> 'a store" where
  "store_of objects k =
     (if k < length objects then objects ! k
      else \<lparr>planes = 0, depth = 0, height = 0, width = 0, vals = []\<rparr>)"

text \<open>Coordinates as tuples: the slot of a tuple, and the sets of tuples the loops cover.\<close>

definition elem4 :: "'a array4d \<Rightarrow> int \<times> int \<times> int \<times> int \<Rightarrow> 'a" where
  "elem4 a c = (case c of (p, d, h, w) \<Rightarrow> elem a p d h w)"

definition valid :: "'a array4d \<Rightarrow> (int \<times> int \<times> int \<times> int) set" where
  "valid a = {c. case c of (p, d, h, w) \<Rightarrow> in_range a p d h w}"

definition row_cells :: "'a array4d \<Rightarrow> int \<Rightarrow> int \<Rightarrow> int \<Rightarrow> (int \<times> int \<times> int \<times> int) set" where
  "row_cells a p d h = {(p, d, h, w) | w. 0 \<le> w \<and> w < width a}"

definition depth_cells :: "'a array4d \<Rightarrow> int \<Rightarrow> int \<Rightarrow> (int \<times> int \<times> int \<times> int) set" where
  "depth_cells a p d = (\<Union>h\<in>{0..<height a}. row_cells a p d h)"

definition plane_cells :: "'a array4d \<Rightarrow> int \<Rightarrow> (int \<times> int \<times> int \<times> int) set" where
  "plane_cells a p = (\<Union>d\<in>{0..<depth a}. depth_cells a p d)"

text \<open>
  Nested literals. A literal is \<open>rectangular\<close> when every list in it has the length of
  the first list of its nesting level, which is what the constructor compares against.
  \<open>literal_at\<close> is the element the literal shows at a coordinate.
\<close>

definition rectangular :: "'a list list list list \<Rightarrow> bool" where
  "rectangular values \<longleftrightarrow>
     (\<forall>pl\<in>set values. length pl = length (hd values)
        \<and> (\<forall>rows\<in>set pl. length rows = length (hd (hd values))
              \<and> (\<forall>row\<in>set rows. length row = length (hd (hd (hd values))))))"

text \<open>The product of the four lengths the constructor reads from a literal.\<close>

definition literal_size :: "'a list list list list \<Rightarrow> int" where
  "literal_size values =
     int (length values) * int (length (hd values)) * int (length (hd (hd values)))
       * int (length (hd (hd (hd values))))"

definition literal_at :: "'a list list list list \<Rightarrow> int \<Rightarrow> int \<Rightarrow> int \<Rightarrow> int \<Rightarrow> 'a" where
  "literal_at values p d h w = values ! nat p ! nat d ! nat h ! nat w"

text \<open>
  Without the length checks a literal is accepted when every element it shows has its
  coordinates inside the dimensions: \<open>fits\<close> says so level by level, and \<open>literal_cells\<close>
  are the coordinates at which the literal shows an element (\<open>in_literal\<close>, with natural
  numbers).
\<close>

definition fits_row :: "'a array4d \<Rightarrow> int \<Rightarrow> int \<Rightarrow> int \<Rightarrow> 'b list \<Rightarrow> bool" where
  "fits_row a p d h row \<longleftrightarrow>
     (\<forall>x\<in>set (enumerate 0 row). p < planes a \<and> d < depth a \<and> h < height a \<and> int (fst x) < width a)"

definition fits_depth :: "'a array4d \<Rightarrow> int \<Rightarrow> int \<Rightarrow> 'b list list \<Rightarrow> bool" where
  "fits_depth a p d rows \<longleftrightarrow> (\<forall>x\<in>set (enumerate 0 rows). fits_row a p d (int (fst x)) (snd x))"

definition fits_plane :: "'a array4d \<Rightarrow> int \<Rightarrow> 'b list list list \<Rightarrow> bool" where
  "fits_plane a p ds \<longleftrightarrow> (\<forall>x\<in>set (enumerate 0 ds). fits_depth a p (int (fst x)) (snd x))"

definition fits :: "'a array4d \<Rightarrow> 'b list list list list \<Rightarrow> bool" where
  "fits a lit \<longleftrightarrow> (\<forall>x\<in>set (enumerate 0 lit). fits_plane a (int (fst x)) (snd x))"

definition literal_row_cells :: "int \<Rightarrow> int \<Rightarrow> int \<Rightarrow> 'b list \<Rightarrow> (int \<times> int \<times> int \<times> int) set" where
  "literal_row_cells p d h row = (\<Union>x\<in>set (enumerate 0 row). {(p, d, h, int (fst x))})"

definition literal_depth_cells :: "int \<Rightarrow> int \<Rightarrow> 'b list list \<Rightarrow> (int \<times> int \<times> int \<times> int) set" where
  "literal_depth_cells p d rows =
     (\<Union>x\<in>set (enumerate 0 rows). literal_row_cells p d (int (fst x)) (snd x))"

definition literal_plane_cells :: "int \<Rightarrow> 'b list list list \<Rightarrow> (int \<times> int \<times> int \<times> int) set" where
  "literal_plane_cells p ds =
     (\<Union>x\<in>set (enumerate 0 ds). literal_depth_cells p (int (fst x)) (snd x))"

definition literal_cells :: "'b list list list list \<Rightarrow> (int \<times> int \<times> int \<times> int) set" where
  "literal_cells lit = (\<Union>x\<in>set (enumerate 0 lit). literal_plane_cells (int (fst x)) (snd x))"

definition in_literal :: "'b list list list list \<Rightarrow> nat \<Rightarrow> nat \<Rightarrow> nat \<Rightarrow> nat \<Rightarrow> bool" where
  "in_literal lit p d h w \<longleftrightarrow>
     p < length lit \<and> d < length (lit ! p) \<and> h < length (lit ! p ! d) \<and> w < length (lit ! p ! d ! h)"

section \<open>Arithmetic of 64-bit products\<close>

lemma int64_id: "in_int64 x \<Longrightarrow> int64 x = x"
  by (simp add: int64_def in_int64_def)

lemma int64_mod: "int64 x mod 18446744073709551616 = x mod 18446744073709551616"
proof -
  have "int64 x mod 18446744073709551616
      = ((x + 9223372036854775808) - 9223372036854775808) mod 18446744073709551616"
    unfolding int64_def by (rule mod_diff_left_eq)
  then show ?thesis by simp
qed

lemma int64_cong:
  assumes "x mod 18446744073709551616 = y mod 18446744073709551616"
  shows "int64 x = int64 y"
proof -
  have "(x + 9223372036854775808) mod 18446744073709551616
      = (y + 9223372036854775808) mod 18446744073709551616"
    using assms by (rule mod_add_cong) simp
  then show ?thesis unfolding int64_def by simp
qed

lemma int64_mult_left: "int64 (int64 x * y) = int64 (x * y)"
  by (rule int64_cong, rule mod_mult_cong, rule int64_mod, rule refl)

text \<open>The product the constructors compute is the product of the dimensions, wrapped once.\<close>

lemma dims_product_wrap: "dims_product np nd nh nw = int64 (np * nd * nh * nw)"
  by (simp add: dims_product_def int64_mult_left)

lemma dims_product_exact:
  "in_int64 (np * nd * nh * nw) \<Longrightarrow> dims_product np nd nh nw = np * nd * nh * nw"
  by (simp add: dims_product_wrap int64_id)

section \<open>Arithmetic of the row-major layout\<close>

lemma radix_bound:
  fixes a b n m :: int
  assumes "0 \<le> a" "a < n" "0 \<le> b" "b < m"
  shows "0 \<le> a * m + b \<and> a * m + b < n * m"
proof -
  have "a * m + b < a * m + m" using assms by simp
  also have "\<dots> = (a + 1) * m" by (simp add: algebra_simps)
  also have "\<dots> \<le> n * m" using assms by (intro mult_right_mono) auto
  finally show ?thesis using assms by simp
qed

lemma linear_index_bound:
  assumes "0 \<le> p" "p < planes a" "0 \<le> d" "d < depth a"
    and "0 \<le> h" "h < height a" "0 \<le> w" "w < width a"
  shows "0 \<le> linear_index a p d h w
       \<and> linear_index a p d h w < planes a * depth a * height a * width a"
proof -
  have 1: "0 \<le> h * width a + w \<and> h * width a + w < height a * width a"
    using assms by (intro radix_bound) auto
  have 2: "0 \<le> d * (height a * width a) + (h * width a + w)
      \<and> d * (height a * width a) + (h * width a + w) < depth a * (height a * width a)"
    using assms 1 by (intro radix_bound) auto
  have 3: "0 \<le> p * (depth a * (height a * width a))
               + (d * (height a * width a) + (h * width a + w))
      \<and> p * (depth a * (height a * width a))
               + (d * (height a * width a) + (h * width a + w))
          < planes a * (depth a * (height a * width a))"
    using assms 2 by (intro radix_bound) auto
  show ?thesis using 3 by (simp add: linear_index_def algebra_simps)
qed

lemma linear_index_in_storage:
  assumes "well_formed a" "0 \<le> p" "p < planes a" "0 \<le> d" "d < depth a"
    and "0 \<le> h" "h < height a" "0 \<le> w" "w < width a"
  shows "0 \<le> linear_index a p d h w \<and> linear_index a p d h w < int (length (vals a))"
  using linear_index_bound[OF assms(2-)] assms(1)
  by (simp add: well_formed_def n1_def n2_def n3_def n4_def)

lemma radix_inj:
  fixes a b a' b' m :: int
  assumes "0 \<le> b" "b < m" "0 \<le> b'" "b' < m" "a * m + b = a' * m + b'"
  shows "a = a' \<and> b = b'"
proof -
  have 1: "(a * m + b) div m = a" and 2: "(a' * m + b') div m = a'"
    using assms(1-4) by auto
  have "(a * m + b) div m = (a' * m + b') div m" using assms(5) by (rule arg_cong)
  then have "a = a'" using 1 2 by simp
  then show ?thesis using assms(5) by simp
qed

lemma linear_index_inj:
  assumes "0 \<le> d" "d < depth a" "0 \<le> h" "h < height a" "0 \<le> w" "w < width a"
    and "0 \<le> d'" "d' < depth a" "0 \<le> h'" "h' < height a" "0 \<le> w'" "w' < width a"
    and "linear_index a p d h w = linear_index a p' d' h' w'"
  shows "p = p' \<and> d = d' \<and> h = h' \<and> w = w'"
proof -
  have hw: "0 \<le> h * width a + w \<and> h * width a + w < height a * width a"
    using assms by (intro radix_bound) auto
  have hw': "0 \<le> h' * width a + w' \<and> h' * width a + w' < height a * width a"
    using assms by (intro radix_bound) auto
  have dhw: "0 \<le> d * (height a * width a) + (h * width a + w)
      \<and> d * (height a * width a) + (h * width a + w) < depth a * (height a * width a)"
    using assms hw by (intro radix_bound) auto
  have dhw': "0 \<le> d' * (height a * width a) + (h' * width a + w')
      \<and> d' * (height a * width a) + (h' * width a + w') < depth a * (height a * width a)"
    using assms hw' by (intro radix_bound) auto
  have eq: "p * (depth a * (height a * width a)) + (d * (height a * width a) + (h * width a + w))
      = p' * (depth a * (height a * width a)) + (d' * (height a * width a) + (h' * width a + w'))"
    using assms(13) by (simp add: linear_index_def algebra_simps)
  have 1: "p = p' \<and> d * (height a * width a) + (h * width a + w)
              = d' * (height a * width a) + (h' * width a + w')"
    using radix_inj[OF _ _ _ _ eq] dhw dhw' by blast
  then have 2: "d = d' \<and> h * width a + w = h' * width a + w'"
    using radix_inj[of "h * width a + w" "height a * width a" "h' * width a + w'" d d'] hw hw' by blast
  then have 3: "h = h' \<and> w = w'"
    using radix_inj[of w "width a" w' h h'] assms by blast
  show ?thesis using 1 2 3 by simp
qed

section \<open>Loops\<close>

text \<open>
  An invariant of the body is an invariant of the loop, whether it completes or aborts.
\<close>

lemma for_loop_state_inv:
  assumes "\<And>i s. i \<in> set xs \<Longrightarrow> I s \<Longrightarrow> I (state_of (body i s))" and "I s"
  shows "I (state_of (for_loop body xs s))"
  using assms
proof (induction xs arbitrary: s)
  case Nil
  then show ?case by (simp add: state_of_def)
next
  case (Cons x xs)
  show ?case
  proof (cases "body x s")
    case (Done s')
    then have "I s'" using Cons.prems(1)[of x s] Cons.prems(2) by (simp add: state_of_def)
    then show ?thesis using Cons.IH[of s'] Cons.prems(1) Done by simp
  next
    case (Abort e s')
    then show ?thesis using Cons.prems(1)[of x s] Cons.prems(2) by (simp add: state_of_def)
  qed
qed

text \<open>
  The loops of this file write cells. When the body for \<open>x\<close> either aborts with \<open>E\<close> (for
  a bad \<open>x\<close>) or completes, sets the cells \<open>C x\<close> to their final values \<open>g\<close> and leaves the
  other valid cells alone, the loop sets the cells of every \<open>x\<close>, or aborts with \<open>E\<close> when
  some \<open>x\<close> is bad.
\<close>

lemma for_loop_cells:
  assumes "I s"
    and "\<And>x s. x \<in> set xs \<Longrightarrow> I s \<Longrightarrow>
          (if good x
           then (\<exists>s'. body x s = Done s' \<and> I s' \<and> (\<forall>c\<in>C x. get s' c = g c)
                   \<and> (\<forall>c\<in>V. c \<notin> C x \<longrightarrow> get s' c = get s c))
           else (\<exists>s'. body x s = Abort E s'))"
    and "\<And>x. x \<in> set xs \<Longrightarrow> good x \<Longrightarrow> C x \<subseteq> V"
  shows "if (\<forall>x\<in>set xs. good x)
         then (\<exists>s'. for_loop body xs s = Done s' \<and> I s' \<and> (\<forall>c\<in>(\<Union>x\<in>set xs. C x). get s' c = g c)
                 \<and> (\<forall>c\<in>V. c \<notin> (\<Union>x\<in>set xs. C x) \<longrightarrow> get s' c = get s c))
         else (\<exists>s'. for_loop body xs s = Abort E s')"
  using assms
proof (induction xs arbitrary: s)
  case Nil
  then show ?case by simp
next
  case (Cons x xs)
  show ?case
  proof (cases "good x")
    case False
    then show ?thesis using Cons.prems(2)[of x s] Cons.prems(1) by auto
  next
    case True
    then obtain s1 where s1: "body x s = Done s1" "I s1" "\<forall>c\<in>C x. get s1 c = g c"
      "\<forall>c\<in>V. c \<notin> C x \<longrightarrow> get s1 c = get s c"
      using Cons.prems(2)[of x s] Cons.prems(1) by auto
    have IH: "if (\<forall>x\<in>set xs. good x)
         then (\<exists>s'. for_loop body xs s1 = Done s' \<and> I s' \<and> (\<forall>c\<in>(\<Union>x\<in>set xs. C x). get s' c = g c)
                 \<and> (\<forall>c\<in>V. c \<notin> (\<Union>x\<in>set xs. C x) \<longrightarrow> get s' c = get s1 c))
         else (\<exists>s'. for_loop body xs s1 = Abort E s')"
    proof (rule Cons.IH[OF s1(2)])
      show "\<And>x s. x \<in> set xs \<Longrightarrow> I s \<Longrightarrow>
          (if good x
           then (\<exists>s'. body x s = Done s' \<and> I s' \<and> (\<forall>c\<in>C x. get s' c = g c)
                   \<and> (\<forall>c\<in>V. c \<notin> C x \<longrightarrow> get s' c = get s c))
           else (\<exists>s'. body x s = Abort E s'))"
        using Cons.prems(2) by simp
      show "\<And>x. x \<in> set xs \<Longrightarrow> good x \<Longrightarrow> C x \<subseteq> V" using Cons.prems(3) by simp
    qed
    show ?thesis
    proof (cases "\<forall>x\<in>set xs. good x")
      case False
      then show ?thesis using IH s1(1) True by auto
    next
      case all: True
      then obtain s2 where s2: "for_loop body xs s1 = Done s2" "I s2"
        "\<forall>c\<in>(\<Union>x\<in>set xs. C x). get s2 c = g c"
        "\<forall>c\<in>V. c \<notin> (\<Union>x\<in>set xs. C x) \<longrightarrow> get s2 c = get s1 c"
        using IH by auto
      have CV: "C x \<subseteq> V" using Cons.prems(3) True by simp
      have a: "\<forall>c\<in>(\<Union>y\<in>set (x # xs). C y). get s2 c = g c"
      proof
        fix c assume c: "c \<in> (\<Union>y\<in>set (x # xs). C y)"
        show "get s2 c = g c"
        proof (cases "c \<in> (\<Union>x\<in>set xs. C x)")
          case True then show ?thesis using s2(3) by blast
        next
          case False
          then have "c \<in> C x" using c by auto
          then show ?thesis using s2(4) s1(3) CV False by (metis subsetD)
        qed
      qed
      have b: "\<forall>c\<in>V. c \<notin> (\<Union>y\<in>set (x # xs). C y) \<longrightarrow> get s2 c = get s c"
        using s2(4) s1(4) by auto
      show ?thesis using True all s1(1) s2(1,2) a b by simp
    qed
  qed
qed

lemma for_loop_cells_done:
  assumes "I s"
    and "\<And>x s. x \<in> set xs \<Longrightarrow> I s \<Longrightarrow>
          \<exists>s'. body x s = Done s' \<and> I s' \<and> (\<forall>c\<in>C x. get s' c = g c)
                   \<and> (\<forall>c\<in>V. c \<notin> C x \<longrightarrow> get s' c = get s c)"
    and "\<And>x. x \<in> set xs \<Longrightarrow> C x \<subseteq> V"
  shows "\<exists>s'. for_loop body xs s = Done s' \<and> I s' \<and> (\<forall>c\<in>(\<Union>x\<in>set xs. C x). get s' c = g c)
                 \<and> (\<forall>c\<in>V. c \<notin> (\<Union>x\<in>set xs. C x) \<longrightarrow> get s' c = get s c)"
  using for_loop_cells[where good = "\<lambda>_. True" and I = I and s = s and xs = xs and body = body
      and C = C and get = get and g = g and V = V and E = Undefined] assms
  by simp

text \<open>
  An abort of the loop is an abort of one of its iterations.
\<close>

lemma for_loop_abort_source:
  assumes "for_loop body xs s = Abort e s'" and "I s"
    and "\<And>x t. x \<in> set xs \<Longrightarrow> I t \<Longrightarrow> I (state_of (body x t))"
  shows "\<exists>x\<in>set xs. \<exists>t. I t \<and> body x t = Abort e s'"
  using assms
proof (induction xs arbitrary: s)
  case Nil
  then show ?case by simp
next
  case (Cons x xs)
  show ?case
  proof (cases "body x s")
    case (Done s1)
    then have "I s1" using Cons.prems(2) Cons.prems(3)[of x s] by (simp add: state_of_def)
    moreover have "for_loop body xs s1 = Abort e s'" using Cons.prems(1) Done by simp
    ultimately have "\<exists>x\<in>set xs. \<exists>t. I t \<and> body x t = Abort e s'"
      using Cons.IH[of s1] Cons.prems(3) by simp
    then show ?thesis by auto
  next
    case (Abort e1 s1)
    then show ?thesis using Cons.prems(1,2) by auto
  qed
qed

lemma for_loop_never:
  assumes "I s"
    and "\<And>x t. x \<in> set xs \<Longrightarrow> I t \<Longrightarrow> I (state_of (body x t))"
    and "\<And>x t t'. x \<in> set xs \<Longrightarrow> I t \<Longrightarrow> body x t \<noteq> Abort E t'"
  shows "for_loop body xs s \<noteq> Abort E s'"
proof
  assume "for_loop body xs s = Abort E s'"
  then have "\<exists>x\<in>set xs. \<exists>t. I t \<and> body x t = Abort E s'"
    using assms(1,2) by (rule for_loop_abort_source)
  then show False using assms(3) by blast
qed

lemma set_range0 [simp]: "set (range0 n) = {0..<n}"
  by (auto simp: range0_def)

lemma ball_enumerate: "(\<forall>x\<in>set (enumerate 0 xs). P (snd x)) \<longleftrightarrow> (\<forall>x\<in>set xs. P x)"
proof
  assume l: "\<forall>x\<in>set (enumerate 0 xs). P (snd x)"
  show "\<forall>x\<in>set xs. P x"
  proof
    fix x assume "x \<in> set xs"
    then obtain k where "k < length xs" "x = xs ! k" by (auto simp: in_set_conv_nth)
    then have "(k, x) \<in> set (enumerate 0 xs)" by (simp add: in_set_enumerate_eq)
    then show "P x" using l by force
  qed
next
  assume "\<forall>x\<in>set xs. P x"
  then show "\<forall>x\<in>set (enumerate 0 xs). P (snd x)"
    by (auto simp: in_set_enumerate_eq)
qed

lemma UN_enumerate:
  "(\<Union>x\<in>set (enumerate 0 xs). F (int (fst x))) = (\<Union>h\<in>{0..<int (length xs)}. F h)"
proof (intro set_eqI iffI)
  fix c assume "c \<in> (\<Union>x\<in>set (enumerate 0 xs). F (int (fst x)))"
  then show "c \<in> (\<Union>h\<in>{0..<int (length xs)}. F h)"
    by (auto simp: in_set_enumerate_eq)
next
  fix c assume "c \<in> (\<Union>h\<in>{0..<int (length xs)}. F h)"
  then obtain h where h: "0 \<le> h" "h < int (length xs)" "c \<in> F h" by auto
  then have "(nat h, xs ! nat h) \<in> set (enumerate 0 xs)"
    by (simp add: in_set_enumerate_eq nat_less_iff)
  then show "c \<in> (\<Union>x\<in>set (enumerate 0 xs). F (int (fst x)))"
    using h by force
qed

section \<open>Shapes are preserved\<close>

lemma well_formed_update:
  "well_formed a \<Longrightarrow> length xs = length (vals a) \<Longrightarrow> well_formed (a\<lparr>vals := xs\<rparr>)"
  by (simp add: well_formed_def n1_def n2_def n3_def n4_def)

lemma same_shape_well_formed: "same_shape b a \<Longrightarrow> well_formed a \<Longrightarrow> well_formed b"
  by (simp add: same_shape_def well_formed_def n1_def n2_def n3_def n4_def)

lemma same_shape_refl [simp]: "same_shape a a"
  by (simp add: same_shape_def)

lemma same_shape_trans: "same_shape c b \<Longrightarrow> same_shape b a \<Longrightarrow> same_shape c a"
  by (simp add: same_shape_def)

lemma same_shape_in_range: "same_shape b a \<Longrightarrow> in_range b p d h w = in_range a p d h w"
  by (simp add: same_shape_def in_range_def)

lemma At_put_dims:
  "planes (state_of (At_put p d h w v a)) = planes a
 \<and> depth (state_of (At_put p d h w v a)) = depth a
 \<and> height (state_of (At_put p d h w v a)) = height a
 \<and> width (state_of (At_put p d h w v a)) = width a
 \<and> length (vals (state_of (At_put p d h w v a))) = length (vals a)"
  by (auto simp: At_put_def state_of_def Let_def)

lemma At_put_same_shape: "same_shape (state_of (At_put p d h w v a)) a"
  using At_put_dims[of p d h w v a] by (simp add: same_shape_def)

lemma well_formed_state:
  "same_shape (state_of r) t \<Longrightarrow> well_formed t \<Longrightarrow> well_formed (state_of r)"
  by (rule same_shape_well_formed)

lemma for_loop_same_shape:
  assumes "\<And>i s. same_shape (state_of (body i s)) s"
  shows "same_shape (state_of (for_loop body xs a)) a"
proof -
  have "(\<lambda>s. same_shape s a) (state_of (for_loop body xs a))"
  proof (rule for_loop_state_inv)
    show "same_shape a a" by simp
    show "\<And>i s. i \<in> set xs \<Longrightarrow> same_shape s a \<Longrightarrow> same_shape (state_of (body i s)) a"
      using assms same_shape_trans by blast
  qed
  then show ?thesis .
qed

lemma assign_from_same_shape: "same_shape (state_of (assign_from p d h w src a)) a"
  by (cases src) (simp_all add: assign_from_def At_put_same_shape, simp add: state_of_def)

lemma FillWithYX_same_shape: "same_shape (state_of (FillWithYX src a)) a"
  unfolding FillWithYX_def
  by (auto simp: state_of_def[of "Abort _ _"] intro!: for_loop_same_shape assign_from_same_shape)

lemma FillWithPZ_same_shape: "same_shape (state_of (FillWithPZ src a)) a"
  unfolding FillWithPZ_def
  by (auto simp: state_of_def[of "Abort _ _"] intro!: for_loop_same_shape assign_from_same_shape)

lemma FillWithMinorDimNum_same_shape: "same_shape (state_of (FillWithMinorDimNum f a)) a"
  unfolding FillWithMinorDimNum_def
  by (intro for_loop_same_shape At_put_same_shape)

lemma mult_slot_same_shape: "same_shape (state_of (mult_slot ys i a)) a"
  by (simp add: mult_slot_def state_of_def same_shape_def)

lemma op_mult_same_shape: "same_shape (state_of (op_mult ndebug rhs a)) a"
  unfolding op_mult_def
  by (auto simp: state_of_def[of "Abort _ _"] state_of_def[of "Done _"]
      intro!: for_loop_same_shape mult_slot_same_shape)

lemma fill_height_same_shape: "same_shape (state_of (fill_height ndebug p d h row a)) a"
  unfolding fill_height_def
  by (auto simp: state_of_def[of "Abort _ _"] split: prod.splits
      intro!: for_loop_same_shape At_put_same_shape)

lemma fill_depth_same_shape: "same_shape (state_of (fill_depth ndebug p d rows a)) a"
  unfolding fill_depth_def
  by (auto simp: state_of_def[of "Abort _ _"] split: prod.splits
      intro!: for_loop_same_shape fill_height_same_shape)

lemma fill_plane_same_shape: "same_shape (state_of (fill_plane ndebug p ds a)) a"
  unfolding fill_plane_def
  by (auto simp: state_of_def[of "Abort _ _"] split: prod.splits
      intro!: for_loop_same_shape fill_depth_same_shape)

lemma Array4D_well_formed:
  "in_int64 (np * nd * nh * nw) \<Longrightarrow> Array4D np nd nh nw = Inr b \<Longrightarrow> well_formed b"
  by (auto simp: Array4D_def dims_product_exact well_formed_def n1_def n2_def n3_def n4_def
      split: if_splits)

lemma length_iota [simp]: "length (iota xs v) = length xs"
  by (induction xs arbitrary: v) auto

lemma length_random_loop [simp]: "length (random_loop sample cast xs g) = length xs"
  by (induction xs arbitrary: g) (auto split: prod.splits)

lemma length_fold_update [simp]: "length (fold (\<lambda>i xs. xs[k i := f i xs]) is xs) = length xs"
  by (induction "is" arbitrary: xs) auto

section \<open>Element access inside the range\<close>

lemma At_in_range:
  assumes "well_formed a" "in_range a p d h w"
  shows "At a p d h w = Inr (elem a p d h w)"
  using linear_index_in_storage[of a p d h w] assms
  by (simp add: At_def in_range_def elem_def Let_def)

lemma At_put_in_range:
  assumes "well_formed a" "in_range a p d h w"
  shows "At_put p d h w v a = Done (a\<lparr>vals := (vals a)[nat (linear_index a p d h w) := v]\<rparr>)"
  using linear_index_in_storage[of a p d h w] assms
  by (simp add: At_put_def in_range_def Let_def)

lemma linear_index_update [simp]:
  "linear_index (a\<lparr>vals := xs\<rparr>) p d h w = linear_index a p d h w"
  by (simp add: linear_index_def)

lemma in_range_update [simp]: "in_range (a\<lparr>vals := xs\<rparr>) p d h w = in_range a p d h w"
  by (simp add: in_range_def)

lemma elem_put_same:
  assumes "well_formed a" "in_range a p d h w"
  shows "elem (a\<lparr>vals := (vals a)[nat (linear_index a p d h w) := v]\<rparr>) p d h w = v"
  using linear_index_in_storage[of a p d h w] assms
  by (simp add: elem_def in_range_def nat_less_iff)

lemma elem_put_other:
  assumes "in_range a p d h w" "in_range a p' d' h' w'" "(p', d', h', w') \<noteq> (p, d, h, w)"
  shows "elem (a\<lparr>vals := (vals a)[nat (linear_index a p d h w) := v]\<rparr>) p' d' h' w' = elem a p' d' h' w'"
proof -
  have "linear_index a p d h w \<noteq> linear_index a p' d' h' w'"
    using linear_index_inj[of d a h w d' h' w' p p'] assms by (auto simp: in_range_def)
  moreover have "0 \<le> linear_index a p d h w" "0 \<le> linear_index a p' d' h' w'"
    using linear_index_bound[of p a d h w] linear_index_bound[of p' a d' h' w'] assms
    by (auto simp: in_range_def)
  ultimately have "nat (linear_index a p d h w) \<noteq> nat (linear_index a p' d' h' w')" by simp
  then show ?thesis by (simp add: elem_def)
qed

lemma At_put_cell:
  assumes wf: "well_formed a" and s: "same_shape s a" and r: "in_range a p d h w"
  shows "\<exists>s'. At_put p d h w v s = Done s' \<and> same_shape s' a
     \<and> (\<forall>c\<in>{(p, d, h, w)}. elem4 s' c = v)
     \<and> (\<forall>c\<in>valid a. c \<notin> {(p, d, h, w)} \<longrightarrow> elem4 s' c = elem4 s c)"
proof -
  have wfs: "well_formed s" using wf s by (rule same_shape_well_formed[rotated])
  have rs: "in_range s p d h w" using r s by (simp add: same_shape_in_range)
  let ?s' = "s\<lparr>vals := (vals s)[nat (linear_index s p d h w) := v]\<rparr>"
  have 1: "At_put p d h w v s = Done ?s'" using wfs rs by (rule At_put_in_range)
  have 2: "same_shape ?s' a" using s by (simp add: same_shape_def)
  have 3: "elem4 ?s' (p, d, h, w) = v" using elem_put_same[OF wfs rs] by (simp add: elem4_def)
  have 4: "elem4 ?s' c = elem4 s c" if "c \<in> valid a" "c \<noteq> (p, d, h, w)" for c
  proof -
    obtain p' d' h' w' where c: "c = (p', d', h', w')" by (cases c) auto
    have "in_range s p' d' h' w'" using that(1) s by (simp add: c valid_def same_shape_in_range)
    then show ?thesis using elem_put_other[OF rs, of p' d' h' w'] that(2) by (simp add: c elem4_def)
  qed
  show ?thesis using 1 2 3 4 by auto
qed

lemma At_put_not_undefined:
  assumes "well_formed t" "0 \<le> p" "0 \<le> d" "0 \<le> h" "0 \<le> w"
  shows "At_put p d h w v t \<noteq> Abort Undefined t'"
proof (cases "in_range t p d h w")
  case True
  then show ?thesis using At_put_in_range[OF assms(1) True] by simp
next
  case False
  then show ?thesis using assms by (auto simp: At_put_def in_range_def)
qed

section \<open>The loops of the matrix product\<close>

lemma accumulate_loop:
  fixes S :: "('a::{plus,times}) store"
  assumes "result \<noteq> lhs" "result \<noteq> rhs"
    and "well_formed (S lhs)" "well_formed (S rhs)" "well_formed (S result)"
    and "in_range (S result) b d i j"
    and "\<forall>r\<in>set rs. in_range (S lhs) b d i r \<and> in_range (S rhs) b d r j"
  shows "for_loop (accumulate lhs rhs result b d i j) rs S =
     Done (S(result := (S result)\<lparr>vals := (vals (S result))[nat (linear_index (S result) b d i j) :=
        foldl (\<lambda>acc r. acc + elem (S lhs) b d i r * elem (S rhs) b d r j)
          (elem (S result) b d i j) rs]\<rparr>))"
  using assms
proof (induction rs arbitrary: S)
  case Nil
  have "(vals (S result))[nat (linear_index (S result) b d i j) := elem (S result) b d i j] = vals (S result)"
    by (simp add: elem_def)
  then show ?case by simp
next
  case (Cons r rs)
  let ?k = "nat (linear_index (S result) b d i j)"
  let ?x = "elem (S lhs) b d i r * elem (S rhs) b d r j"
  let ?a1 = "(S result)\<lparr>vals := (vals (S result))[?k := elem (S result) b d i j + ?x]\<rparr>"
  let ?S1 = "S(result := ?a1)"
  have step: "accumulate lhs rhs result b d i j r S = Done ?S1"
    using Cons.prems by (simp add: accumulate_def At_in_range store_put_def At_put_in_range)
  have wf1: "well_formed ?a1" using Cons.prems(5) by (simp add: well_formed_update)
  have e1: "elem ?a1 b d i j = elem (S result) b d i j + ?x"
    using elem_put_same[OF Cons.prems(5,6)] by simp
  have "for_loop (accumulate lhs rhs result b d i j) rs ?S1 =
     Done (?S1(result := (?S1 result)\<lparr>vals := (vals (?S1 result))[nat (linear_index (?S1 result) b d i j) :=
        foldl (\<lambda>acc r. acc + elem (?S1 lhs) b d i r * elem (?S1 rhs) b d r j)
          (elem (?S1 result) b d i j) rs]\<rparr>))"
    using Cons.prems wf1 by (intro Cons.IH) auto
  then show ?case using step Cons.prems(1,2) e1 by (auto simp add: fun_eq_iff)
qed

lemma cell_result:
  fixes S :: "('a::{zero,plus,times}) store"
  assumes "result \<noteq> lhs" "result \<noteq> rhs"
    and "well_formed (S lhs)" "well_formed (S rhs)" "well_formed (S result)"
    and "shapes_agree (S lhs) (S rhs) (S result)"
    and "in_range (S result) b d i j"
  shows "cell lhs rhs result b d i j S =
     Done (S(result := (S result)\<lparr>vals := (vals (S result))[nat (linear_index (S result) b d i j) :=
        matrix_product (S lhs) (S rhs) b d i j]\<rparr>))"
proof -
  let ?k = "nat (linear_index (S result) b d i j)"
  let ?a0 = "(S result)\<lparr>vals := (vals (S result))[?k := 0]\<rparr>"
  let ?S0 = "S(result := ?a0)"
  have p: "store_put result b d i j 0 S = Done ?S0"
    using assms by (simp add: store_put_def At_put_in_range)
  have wf0: "well_formed ?a0" using assms(5) by (simp add: well_formed_update)
  have e0: "elem ?a0 b d i j = 0" using elem_put_same[OF assms(5,7)] by simp
  have rs: "\<forall>r\<in>set (range0 (Width (S lhs))). in_range (S lhs) b d i r \<and> in_range (S rhs) b d r j"
    using assms(6,7) by (auto simp: shapes_agree_def in_range_def Width_def Height_def Depth_def Batch_def)
  have "for_loop (accumulate lhs rhs result b d i j) (range0 (Width (S lhs))) ?S0 =
     Done (?S0(result := (?S0 result)\<lparr>vals := (vals (?S0 result))[nat (linear_index (?S0 result) b d i j) :=
        foldl (\<lambda>acc r. acc + elem (?S0 lhs) b d i r * elem (?S0 rhs) b d r j)
          (elem (?S0 result) b d i j) (range0 (Width (S lhs)))]\<rparr>))"
    using assms wf0 rs by (intro accumulate_loop) auto
  then show ?thesis using p e0 assms(1,2)
    by (auto simp: cell_def matrix_product_def fun_eq_iff)
qed

lemma MatrixMul_loops:
  fixes S :: "('a::{zero,plus,times}) store"
  assumes ne: "result \<noteq> lhs" "result \<noteq> rhs"
    and wf: "well_formed (S lhs)" "well_formed (S rhs)" "well_formed (S result)"
    and sh: "shapes_agree (S lhs) (S rhs) (S result)"
  shows "\<exists>S'. for_loop (\<lambda>b. for_loop (\<lambda>d. for_loop (\<lambda>i. for_loop (\<lambda>j.
             cell lhs rhs result b d i j)
           (range0 (Width (S rhs)))) (range0 (Height (S lhs))))
           (range0 (Depth (S result)))) (range0 (Batch (S result))) S = Done S'
      \<and> (\<forall>x. x \<noteq> result \<longrightarrow> S' x = S x)
      \<and> well_formed (S' result) \<and> same_shape (S' result) (S result)
      \<and> (\<forall>b d i j. in_range (S result) b d i j \<longrightarrow>
            elem (S' result) b d i j = matrix_product (S lhs) (S rhs) b d i j)"
proof -
  define I where "I = (\<lambda>T :: 'a store. (\<forall>x. x \<noteq> result \<longrightarrow> T x = S x)
      \<and> well_formed (T result) \<and> same_shape (T result) (S result))"
  define get where "get = (\<lambda>(T :: 'a store) (c :: int \<times> int \<times> int \<times> int).
      case c of (b, d, i, j) \<Rightarrow> elem (T result) b d i j)"
  define g where "g = (\<lambda>c :: int \<times> int \<times> int \<times> int.
      case c of (b, d, i, j) \<Rightarrow> matrix_product (S lhs) (S rhs) b d i j)"
  define V where "V = {c :: int \<times> int \<times> int \<times> int.
      case c of (b, d, i, j) \<Rightarrow> in_range (S result) b d i j}"
  let ?W = "range0 (Width (S rhs))" and ?H = "range0 (Height (S lhs))"
  let ?D = "range0 (Depth (S result))" and ?B = "range0 (Batch (S result))"
  have I0: "I S" by (simp add: I_def wf same_shape_def)
  have inV: "(b, d, i, j) \<in> V"
    if "b \<in> set ?B" "d \<in> set ?D" "i \<in> set ?H" "j \<in> set ?W" for b d i j
    using that sh
    by (auto simp: V_def in_range_def shapes_agree_def Width_def Height_def Depth_def Batch_def)
  have cell_step: "\<exists>T'. cell lhs rhs result b d i j T = Done T' \<and> I T'
        \<and> (\<forall>c\<in>{(b, d, i, j)}. get T' c = g c)
        \<and> (\<forall>c\<in>V. c \<notin> {(b, d, i, j)} \<longrightarrow> get T' c = get T c)"
    if c: "(b, d, i, j) \<in> V" and T: "I T" for b d i j T
  proof -
    have Tl: "T lhs = S lhs" and Tr: "T rhs = S rhs" using T ne by (auto simp: I_def)
    have wfT: "well_formed (T result)" and ssT: "same_shape (T result) (S result)"
      using T by (auto simp: I_def)
    have rT: "in_range (T result) b d i j"
      using c ssT by (simp add: V_def in_range_def same_shape_def)
    have shT: "shapes_agree (T lhs) (T rhs) (T result)"
      using sh ssT Tl Tr
      by (simp add: shapes_agree_def same_shape_def Width_def Height_def Depth_def Batch_def)
    let ?a = "(T result)\<lparr>vals := (vals (T result))[nat (linear_index (T result) b d i j) :=
        matrix_product (S lhs) (S rhs) b d i j]\<rparr>"
    have r: "cell lhs rhs result b d i j T = Done (T(result := ?a))"
      using cell_result[OF ne, of T b d i j] wf wfT shT rT Tl Tr by simp
    have 1: "I (T(result := ?a))"
      using T wfT ssT by (simp add: I_def well_formed_update same_shape_def)
    have 2: "get (T(result := ?a)) (b, d, i, j) = g (b, d, i, j)"
      using elem_put_same[OF wfT rT] by (simp add: get_def g_def)
    have 3: "get (T(result := ?a)) c' = get T c'" if "c' \<in> V" "c' \<noteq> (b, d, i, j)" for c'
    proof -
      obtain b' d' i' j' where c': "c' = (b', d', i', j')" by (cases c') auto
      have "in_range (T result) b' d' i' j'"
        using that(1) ssT by (simp add: c' V_def in_range_def same_shape_def)
      then show ?thesis
        using elem_put_other[OF rT, of b' d' i' j'] that(2) by (simp add: c' get_def)
    qed
    show ?thesis using r 1 2 3 by auto
  qed
  have j_loop: "\<exists>T'. for_loop (\<lambda>j. cell lhs rhs result b d i j) ?W T = Done T' \<and> I T'
        \<and> (\<forall>c\<in>(\<Union>j\<in>set ?W. {(b, d, i, j)}). get T' c = g c)
        \<and> (\<forall>c\<in>V. c \<notin> (\<Union>j\<in>set ?W. {(b, d, i, j)}) \<longrightarrow> get T' c = get T c)"
    if "b \<in> set ?B" "d \<in> set ?D" "i \<in> set ?H" "I T" for b d i T
    using that inV cell_step
    by (intro for_loop_cells_done[where I = I and C = "\<lambda>j. {(b, d, i, j)}"]) auto
  have i_loop: "\<exists>T'. for_loop (\<lambda>i. for_loop (\<lambda>j. cell lhs rhs result b d i j) ?W) ?H T = Done T' \<and> I T'
        \<and> (\<forall>c\<in>(\<Union>i\<in>set ?H. \<Union>j\<in>set ?W. {(b, d, i, j)}). get T' c = g c)
        \<and> (\<forall>c\<in>V. c \<notin> (\<Union>i\<in>set ?H. \<Union>j\<in>set ?W. {(b, d, i, j)}) \<longrightarrow> get T' c = get T c)"
    if "b \<in> set ?B" "d \<in> set ?D" "I T" for b d T
  proof (rule for_loop_cells_done[where I = I and C = "\<lambda>i. \<Union>j\<in>set ?W. {(b, d, i, j)}"])
    show "I T" by fact
    show "\<And>x. x \<in> set ?H \<Longrightarrow> (\<Union>j\<in>set ?W. {(b, d, x, j)}) \<subseteq> V"
      using inV that by auto
    show "\<And>x s. x \<in> set ?H \<Longrightarrow> I s \<Longrightarrow>
        \<exists>s'. for_loop (\<lambda>j. cell lhs rhs result b d x j) ?W s = Done s' \<and> I s'
          \<and> (\<forall>c\<in>\<Union>j\<in>set ?W. {(b, d, x, j)}. get s' c = g c)
          \<and> (\<forall>c\<in>V. c \<notin> (\<Union>j\<in>set ?W. {(b, d, x, j)}) \<longrightarrow> get s' c = get s c)"
      using j_loop that by blast
  qed
  have d_loop: "\<exists>T'. for_loop (\<lambda>d. for_loop (\<lambda>i. for_loop (\<lambda>j. cell lhs rhs result b d i j) ?W) ?H) ?D T
          = Done T' \<and> I T'
        \<and> (\<forall>c\<in>(\<Union>d\<in>set ?D. \<Union>i\<in>set ?H. \<Union>j\<in>set ?W. {(b, d, i, j)}). get T' c = g c)
        \<and> (\<forall>c\<in>V. c \<notin> (\<Union>d\<in>set ?D. \<Union>i\<in>set ?H. \<Union>j\<in>set ?W. {(b, d, i, j)})
              \<longrightarrow> get T' c = get T c)"
    if "b \<in> set ?B" "I T" for b T
  proof (rule for_loop_cells_done[where I = I
        and C = "\<lambda>d. \<Union>i\<in>set ?H. \<Union>j\<in>set ?W. {(b, d, i, j)}"])
    show "I T" by fact
    show "\<And>x. x \<in> set ?D \<Longrightarrow> (\<Union>i\<in>set ?H. \<Union>j\<in>set ?W. {(b, x, i, j)}) \<subseteq> V"
      using inV that by auto
    show "\<And>x s. x \<in> set ?D \<Longrightarrow> I s \<Longrightarrow>
        \<exists>s'. for_loop (\<lambda>i. for_loop (\<lambda>j. cell lhs rhs result b x i j) ?W) ?H s = Done s' \<and> I s'
          \<and> (\<forall>c\<in>\<Union>i\<in>set ?H. \<Union>j\<in>set ?W. {(b, x, i, j)}. get s' c = g c)
          \<and> (\<forall>c\<in>V. c \<notin> (\<Union>i\<in>set ?H. \<Union>j\<in>set ?W. {(b, x, i, j)}) \<longrightarrow> get s' c = get s c)"
      using i_loop that by blast
  qed
  have b_loop: "\<exists>T'. for_loop (\<lambda>b. for_loop (\<lambda>d. for_loop (\<lambda>i.
            for_loop (\<lambda>j. cell lhs rhs result b d i j) ?W) ?H) ?D) ?B S = Done T' \<and> I T'
        \<and> (\<forall>c\<in>(\<Union>b\<in>set ?B. \<Union>d\<in>set ?D. \<Union>i\<in>set ?H. \<Union>j\<in>set ?W. {(b, d, i, j)}). get T' c = g c)
        \<and> (\<forall>c\<in>V. c \<notin> (\<Union>b\<in>set ?B. \<Union>d\<in>set ?D. \<Union>i\<in>set ?H. \<Union>j\<in>set ?W. {(b, d, i, j)})
              \<longrightarrow> get T' c = get S c)"
  proof (rule for_loop_cells_done[where I = I
        and C = "\<lambda>b. \<Union>d\<in>set ?D. \<Union>i\<in>set ?H. \<Union>j\<in>set ?W. {(b, d, i, j)}"])
    show "I S" by fact
    show "\<And>x. x \<in> set ?B \<Longrightarrow> (\<Union>d\<in>set ?D. \<Union>i\<in>set ?H. \<Union>j\<in>set ?W. {(x, d, i, j)}) \<subseteq> V"
      using inV by auto
    show "\<And>x s. x \<in> set ?B \<Longrightarrow> I s \<Longrightarrow>
        \<exists>s'. for_loop (\<lambda>d. for_loop (\<lambda>i. for_loop (\<lambda>j. cell lhs rhs result x d i j) ?W) ?H) ?D s
            = Done s' \<and> I s'
          \<and> (\<forall>c\<in>\<Union>d\<in>set ?D. \<Union>i\<in>set ?H. \<Union>j\<in>set ?W. {(x, d, i, j)}. get s' c = g c)
          \<and> (\<forall>c\<in>V. c \<notin> (\<Union>d\<in>set ?D. \<Union>i\<in>set ?H. \<Union>j\<in>set ?W. {(x, d, i, j)})
                \<longrightarrow> get s' c = get s c)"
      using d_loop by blast
  qed
  then obtain T' where T': "for_loop (\<lambda>b. for_loop (\<lambda>d. for_loop (\<lambda>i.
            for_loop (\<lambda>j. cell lhs rhs result b d i j) ?W) ?H) ?D) ?B S = Done T'" "I T'"
        "\<forall>c\<in>(\<Union>b\<in>set ?B. \<Union>d\<in>set ?D. \<Union>i\<in>set ?H. \<Union>j\<in>set ?W. {(b, d, i, j)}). get T' c = g c"
    by blast
  have "elem (T' result) b d i j = matrix_product (S lhs) (S rhs) b d i j"
    if "in_range (S result) b d i j" for b d i j
  proof -
    have "(b, d, i, j) \<in> (\<Union>b\<in>set ?B. \<Union>d\<in>set ?D. \<Union>i\<in>set ?H. \<Union>j\<in>set ?W. {(b, d, i, j)})"
      using that sh
      by (auto simp: in_range_def shapes_agree_def Width_def Height_def Depth_def Batch_def)
    then have "get T' (b, d, i, j) = g (b, d, i, j)" using T'(3) by blast
    then show ?thesis by (simp add: get_def g_def)
  qed
  then show ?thesis using T'(1,2) by (auto simp: I_def)
qed

text \<open>Where addition is associative with unit zero, the accumulated value is the sum.\<close>

lemma foldl_add_sum_list:
  fixes f :: "'b \<Rightarrow> 'a::monoid_add"
  shows "foldl (\<lambda>acc r. acc + f r) a rs = a + (\<Sum>r\<leftarrow>rs. f r)"
  by (induction rs arbitrary: a) (simp_all add: add.assoc)

lemma matrix_product_sum:
  fixes L R :: "('a::semiring_0) array4d"
  shows "matrix_product L R b d i j = (\<Sum>r\<leftarrow>range0 (Width L). elem L b d i r * elem R b d r j)"
  by (simp add: matrix_product_def foldl_add_sum_list)

text \<open>
  The storage invariant is needed: a \<open>result\<close> with positive dimensions and no storage,
  as the sized constructor returns for the dimensions \<open>(2^32, 2^32, 1, 1)\<close>, passes the
  shape checks and is then written outside its vector.
\<close>

lemma for_loop_range0_abort:
  assumes "0 < n" and "body 0 s = Abort e s'"
  shows "for_loop body (range0 n) s = Abort e s'"
proof -
  have "range0 n = 0 # [1..n - 1]" using assms(1) by (simp add: range0_def upto_rec1)
  then show ?thesis using assms(2) by simp
qed

lemma MatrixMul_no_storage:
  fixes S :: "('a::{zero,plus,times}) store"
  assumes sh: "shapes_agree (S lhs) (S rhs) (S result)"
    and pos: "0 < planes (S result)" "0 < depth (S result)" "0 < height (S result)"
      "0 < width (S result)"
    and empty: "vals (S result) = []"
  shows "MatrixMul lhs rhs result S = Abort Undefined S"
proof -
  have put: "At_put 0 0 0 0 0 (S result) = Abort Undefined (S result)"
    using pos empty by (simp add: At_put_def linear_index_def)
  have c: "cell lhs rhs result 0 0 0 0 S = Abort Undefined S"
    by (simp add: cell_def store_put_def put)
  have j: "for_loop (\<lambda>j. cell lhs rhs result 0 0 0 j) (range0 (Width (S rhs))) S
      = Abort Undefined S"
    using sh pos by (intro for_loop_range0_abort c) (simp add: shapes_agree_def Width_def)
  have i: "for_loop (\<lambda>i. for_loop (\<lambda>j. cell lhs rhs result 0 0 i j) (range0 (Width (S rhs))))
      (range0 (Height (S lhs))) S = Abort Undefined S"
    using sh pos by (intro for_loop_range0_abort j) (simp add: shapes_agree_def Height_def)
  have d: "for_loop (\<lambda>d. for_loop (\<lambda>i. for_loop (\<lambda>j. cell lhs rhs result 0 d i j)
      (range0 (Width (S rhs)))) (range0 (Height (S lhs)))) (range0 (Depth (S result))) S
      = Abort Undefined S"
    using pos by (intro for_loop_range0_abort i) (simp add: Depth_def)
  have b: "for_loop (\<lambda>b. for_loop (\<lambda>d. for_loop (\<lambda>i. for_loop (\<lambda>j.
      cell lhs rhs result b d i j)
      (range0 (Width (S rhs)))) (range0 (Height (S lhs)))) (range0 (Depth (S result))))
      (range0 (Batch (S result))) S = Abort Undefined S"
    using pos by (intro for_loop_range0_abort d) (simp add: Batch_def)
  show ?thesis using sh b by (simp add: MatrixMul_def shapes_agree_def)
qed

lemma MatrixMul_no_storage_example:
  "Array4D 4294967296 4294967296 1 1
     = Inr \<lparr>planes = 4294967296, depth = 4294967296, height = 1, width = 1, vals = ([] :: int list)\<rparr>
 \<and> MatrixMul 0 1 2 (store_of
      [\<lparr>planes = 4294967296, depth = 4294967296, height = 1, width = 1, vals = ([] :: int list)\<rparr>,
       \<lparr>planes = 4294967296, depth = 4294967296, height = 1, width = 1, vals = []\<rparr>,
       \<lparr>planes = 4294967296, depth = 4294967296, height = 1, width = 1, vals = []\<rparr>])
   = Abort Undefined (store_of
      [\<lparr>planes = 4294967296, depth = 4294967296, height = 1, width = 1, vals = ([] :: int list)\<rparr>,
       \<lparr>planes = 4294967296, depth = 4294967296, height = 1, width = 1, vals = []\<rparr>,
       \<lparr>planes = 4294967296, depth = 4294967296, height = 1, width = 1, vals = []\<rparr>])"
proof -
  have "Array4D 4294967296 4294967296 1 1
     = Inr \<lparr>planes = 4294967296, depth = 4294967296, height = 1, width = 1, vals = ([] :: int list)\<rparr>"
    by (simp add: Array4D_def dims_product_def int64_def)
  moreover have "MatrixMul 0 1 2 (store_of
      [\<lparr>planes = 4294967296, depth = 4294967296, height = 1, width = 1, vals = ([] :: int list)\<rparr>,
       \<lparr>planes = 4294967296, depth = 4294967296, height = 1, width = 1, vals = []\<rparr>,
       \<lparr>planes = 4294967296, depth = 4294967296, height = 1, width = 1, vals = []\<rparr>])
   = Abort Undefined (store_of
      [\<lparr>planes = 4294967296, depth = 4294967296, height = 1, width = 1, vals = ([] :: int list)\<rparr>,
       \<lparr>planes = 4294967296, depth = 4294967296, height = 1, width = 1, vals = []\<rparr>,
       \<lparr>planes = 4294967296, depth = 4294967296, height = 1, width = 1, vals = []\<rparr>])"
    by (rule MatrixMul_no_storage)
       (simp_all add: store_of_def shapes_agree_def Width_def Height_def Depth_def Batch_def)
  ultimately show ?thesis by (rule conjI)
qed

section \<open>Comparison, random fill and elementwise product\<close>

lemma eq_loop_all:
  "eq_loop xs ys i result \<longleftrightarrow>
     result \<and> (\<forall>k. i \<le> k \<and> k < length xs \<longrightarrow> \<bar>xs ! k - ys ! k\<bar> < tolerance)"
proof (induction xs ys i result rule: eq_loop.induct)
  case (1 xs ys i result)
  let ?P = "\<lambda>k. \<bar>xs ! k - ys ! k\<bar> < tolerance"
  show ?case
  proof (cases "i < length xs \<and> result")
    case True
    have split: "(\<forall>k. i \<le> k \<and> k < length xs \<longrightarrow> ?P k)
       \<longleftrightarrow> ?P i \<and> (\<forall>k. i + 1 \<le> k \<and> k < length xs \<longrightarrow> ?P k)"
    proof
      assume all: "\<forall>k. i \<le> k \<and> k < length xs \<longrightarrow> ?P k"
      then show "?P i \<and> (\<forall>k. i + 1 \<le> k \<and> k < length xs \<longrightarrow> ?P k)"
        using True by auto
    next
      assume r: "?P i \<and> (\<forall>k. i + 1 \<le> k \<and> k < length xs \<longrightarrow> ?P k)"
      show "\<forall>k. i \<le> k \<and> k < length xs \<longrightarrow> ?P k"
      proof (intro allI impI)
        fix k assume "i \<le> k \<and> k < length xs"
        then have "k = i \<or> (i + 1 \<le> k \<and> k < length xs)" by arith
        then show "?P k" using r by blast
      qed
    qed
    have "eq_loop xs ys i result = eq_loop xs ys (i + 1) (?P i)"
      by (subst eq_loop.simps) (use True in simp)
    also have "\<dots> \<longleftrightarrow> ?P i \<and> (\<forall>k. i + 1 \<le> k \<and> k < length xs \<longrightarrow> ?P k)"
      using "1.IH"[OF True] .
    finally show ?thesis using split True by simp
  next
    case False
    have "eq_loop xs ys i result = result"
      by (subst eq_loop.simps) (use False in auto)
    then show ?thesis using False by auto
  qed
qed

lemma random_loop_length_only:
  "length xs = length ys \<Longrightarrow> random_loop sample cast xs g = random_loop sample cast ys g"
proof (induction xs ys arbitrary: g rule: list_induct2)
  case Nil
  show ?case by simp
next
  case (Cons x xs y ys)
  then show ?case by (simp split: prod.split)
qed

lemma mult_slot_loop:
  fixes a :: "('a::times) array4d"
  assumes "distinct is" and "\<forall>i\<in>set is. 0 \<le> i \<and> i < int (length (vals a)) \<and> i < int (length ys)"
  shows "\<exists>a'. for_loop (mult_slot ys) is a = Done a' \<and> same_shape a' a
     \<and> (\<forall>k<length (vals a). vals a' ! k = (if int k \<in> set is then vals a ! k * ys ! k else vals a ! k))"
  using assms
proof (induction "is" arbitrary: a)
  case Nil
  then show ?case by simp
next
  case (Cons i "is")
  let ?a1 = "a\<lparr>vals := (vals a)[nat i := vals a ! nat i * ys ! nat i]\<rparr>"
  have i: "0 \<le> i" "i < int (length (vals a))" "i < int (length ys)" "i \<notin> set is"
    using Cons.prems by auto
  have step: "mult_slot ys i a = Done ?a1" using i by (simp add: mult_slot_def)
  have "\<exists>a'. for_loop (mult_slot ys) is ?a1 = Done a' \<and> same_shape a' ?a1
     \<and> (\<forall>k<length (vals ?a1). vals a' ! k = (if int k \<in> set is then vals ?a1 ! k * ys ! k else vals ?a1 ! k))"
    using Cons.prems by (intro Cons.IH) auto
  then obtain a' where a': "for_loop (mult_slot ys) is ?a1 = Done a'" "same_shape a' ?a1"
    "\<forall>k<length (vals a). vals a' ! k = (if int k \<in> set is then vals ?a1 ! k * ys ! k else vals ?a1 ! k)"
    by auto
  have "vals a' ! k = (if int k \<in> set (i # is) then vals a ! k * ys ! k else vals a ! k)"
    if k: "k < length (vals a)" for k
  proof (cases "k = nat i")
    case True
    then have "int k = i" using i by simp
    then show ?thesis using a'(3) k i True by simp
  next
    case False
    then have "int k \<noteq> i" using i by auto
    then show ?thesis using a'(3) k False by simp
  qed
  then show ?case using step a'(1,2) by (simp add: same_shape_def)
qed

lemma op_mult_product:
  fixes a rhs :: "('a::times) array4d"
  assumes "well_formed a" and "well_formed rhs"
    and "n1 rhs = n1 a" and "n2 rhs = n2 a" and "n3 rhs = n3 a" and "n4 rhs = n4 a"
  shows "op_mult ndebug rhs a = Done (a\<lparr>vals := map2 (*) (vals a) (vals rhs)\<rparr>)"
proof -
  have len: "length (vals rhs) = length (vals a)"
    using assms by (simp add: well_formed_def) 
  have dims: "size_dim rhs 0 = size_dim a 0 \<and> size_dim rhs 1 = size_dim a 1
        \<and> size_dim rhs 2 = size_dim a 2 \<and> size_dim rhs 3 = size_dim a 3"
    using assms(3-6) by (simp add: size_dim_def n1_def n2_def n3_def n4_def numeral_3_eq_3 numeral_2_eq_2)
  obtain a' where a': "for_loop (mult_slot (vals rhs)) (range0 (int (length (vals a)))) a = Done a'"
    "same_shape a' a"
    "\<forall>k<length (vals a). vals a' ! k
        = (if int k \<in> set (range0 (int (length (vals a)))) then vals a ! k * vals rhs ! k else vals a ! k)"
    using mult_slot_loop[of "range0 (int (length (vals a)))" a "vals rhs"] len
    by (auto simp: range0_def)
  have "vals a' = map2 (*) (vals a) (vals rhs)"
  proof (rule nth_equalityI)
    show "length (vals a') = length (map2 (*) (vals a) (vals rhs))"
      using a'(2) len by (simp add: same_shape_def)
    show "vals a' ! k = map2 (*) (vals a) (vals rhs) ! k" if "k < length (vals a')" for k
      using that a'(2,3) len by (simp add: same_shape_def)
  qed
  then have "a' = a\<lparr>vals := map2 (*) (vals a) (vals rhs)\<rparr>"
    using a'(2) by (simp add: same_shape_def)
  then show ?thesis using a'(1) dims by (simp add: op_mult_def)
qed

lemma op_mult_mismatch:
  assumes "n1 rhs \<noteq> n1 a \<or> n2 rhs \<noteq> n2 a \<or> n3 rhs \<noteq> n3 a \<or> n4 rhs \<noteq> n4 a"
  shows "op_mult ndebug rhs a = (if ndebug then Done a else Abort ShapeMismatch a)"
  using assms
  by (auto simp: op_mult_def size_dim_def n1_def n2_def n3_def n4_def numeral_3_eq_3 numeral_2_eq_2)

section \<open>The loops of the nested-list constructor\<close>

lemma cells_valid:
  "0 \<le> p \<Longrightarrow> p < planes a \<Longrightarrow> 0 \<le> d \<Longrightarrow> d < depth a \<Longrightarrow> 0 \<le> h \<Longrightarrow> h < height a
     \<Longrightarrow> row_cells a p d h \<subseteq> valid a"
  "0 \<le> p \<Longrightarrow> p < planes a \<Longrightarrow> 0 \<le> d \<Longrightarrow> d < depth a \<Longrightarrow> depth_cells a p d \<subseteq> valid a"
  "0 \<le> p \<Longrightarrow> p < planes a \<Longrightarrow> plane_cells a p \<subseteq> valid a"
  by (auto simp: row_cells_def depth_cells_def plane_cells_def valid_def in_range_def)

lemma valid_planes: "valid a = (\<Union>p\<in>{0..<planes a}. plane_cells a p)"
  by (auto simp: row_cells_def depth_cells_def plane_cells_def valid_def in_range_def)

lemma fill_height_debug:
  assumes wf: "well_formed a" and s: "same_shape s a"
    and r: "0 \<le> p" "p < planes a" "0 \<le> d" "d < depth a" "0 \<le> h" "h < height a"
  shows "if int (length row) = width a
         then (\<exists>s'. fill_height False p d h row s = Done s' \<and> same_shape s' a
            \<and> (\<forall>c\<in>row_cells a p d h. elem4 s' c = (case c of (p, d, h, w) \<Rightarrow> row ! nat w))
            \<and> (\<forall>c\<in>valid a. c \<notin> row_cells a p d h \<longrightarrow> elem4 s' c = elem4 s c))
         else (\<exists>s'. fill_height False p d h row s = Abort RaggedShape s')"
proof (cases "int (length row) = width a")
  case False
  then show ?thesis using s by (simp add: fill_height_def same_shape_def)
next
  case True
  have ws: "width s = width a" using s by (simp add: same_shape_def)
  have cells: "(\<Union>x\<in>set (enumerate 0 row). case x of (w, e) \<Rightarrow> {(p, d, h, int w)}) = row_cells a p d h"
  proof (intro set_eqI iffI)
    fix c assume "c \<in> (\<Union>x\<in>set (enumerate 0 row). case x of (w, e) \<Rightarrow> {(p, d, h, int w)})"
    then show "c \<in> row_cells a p d h"
      using True by (auto simp: row_cells_def in_set_enumerate_eq)
  next
    fix c assume "c \<in> row_cells a p d h"
    then obtain w where w: "c = (p, d, h, w)" "0 \<le> w" "w < width a"
      by (auto simp: row_cells_def)
    then have "(nat w, row ! nat w) \<in> set (enumerate 0 row)"
      using True by (simp add: in_set_enumerate_eq nat_less_iff)
    then show "c \<in> (\<Union>x\<in>set (enumerate 0 row). case x of (w, e) \<Rightarrow> {(p, d, h, int w)})"
      using w by force
  qed
  have "\<exists>s'. for_loop (\<lambda>(w, element_value). At_put p d h (int w) element_value) (enumerate 0 row) s = Done s'
      \<and> same_shape s' a
      \<and> (\<forall>c\<in>(\<Union>x\<in>set (enumerate 0 row). case x of (w, e) \<Rightarrow> {(p, d, h, int w)}).
            elem4 s' c = (case c of (p, d, h, w) \<Rightarrow> row ! nat w))
      \<and> (\<forall>c\<in>valid a. c \<notin> (\<Union>x\<in>set (enumerate 0 row). case x of (w, e) \<Rightarrow> {(p, d, h, int w)})
            \<longrightarrow> elem4 s' c = elem4 s c)"
  proof (rule for_loop_cells_done[where I = "\<lambda>s. same_shape s a"])
    show "same_shape s a" by fact
    show "(case x of (w, e) \<Rightarrow> {(p, d, h, int w)}) \<subseteq> valid a" if "x \<in> set (enumerate 0 row)" for x
      using that True r by (auto simp: valid_def in_range_def in_set_enumerate_eq)
    show "\<exists>s'. (case x of (w, element_value) \<Rightarrow> At_put p d h (int w) element_value) t = Done s'
        \<and> same_shape s' a
        \<and> (\<forall>c\<in>(case x of (w, e) \<Rightarrow> {(p, d, h, int w)}). elem4 s' c = (case c of (p, d, h, w) \<Rightarrow> row ! nat w))
        \<and> (\<forall>c\<in>valid a. c \<notin> (case x of (w, e) \<Rightarrow> {(p, d, h, int w)}) \<longrightarrow> elem4 s' c = elem4 t c)"
      if x: "x \<in> set (enumerate 0 row)" and t: "same_shape t a" for x t
    proof -
      obtain w e where xe: "x = (w, e)" by (cases x)
      have w: "w < length row" "e = row ! w" using x by (auto simp: xe in_set_enumerate_eq)
      have "in_range a p d h (int w)" using w True r by (simp add: in_range_def)
      from At_put_cell[OF wf t this, of e] show ?thesis using w by (simp add: xe)
    qed
  qed
  then show ?thesis using True ws by (simp add: fill_height_def cells)
qed

lemma fill_depth_debug:
  assumes wf: "well_formed a" and s: "same_shape s a"
    and r: "0 \<le> p" "p < planes a" "0 \<le> d" "d < depth a"
  shows "if int (length rows) = height a \<and> (\<forall>row\<in>set rows. int (length row) = width a)
         then (\<exists>s'. fill_depth False p d rows s = Done s' \<and> same_shape s' a
            \<and> (\<forall>c\<in>depth_cells a p d. elem4 s' c = (case c of (p, d, h, w) \<Rightarrow> rows ! nat h ! nat w))
            \<and> (\<forall>c\<in>valid a. c \<notin> depth_cells a p d \<longrightarrow> elem4 s' c = elem4 s c))
         else (\<exists>s'. fill_depth False p d rows s = Abort RaggedShape s')"
proof (cases "int (length rows) = height a")
  case False
  then show ?thesis using s by (simp add: fill_depth_def same_shape_def)
next
  case True
  have hs: "height s = height a" using s by (simp add: same_shape_def)
  let ?g = "\<lambda>c :: int \<times> int \<times> int \<times> int. case c of (p, d, h, w) \<Rightarrow> rows ! nat h ! nat w"
  let ?body = "\<lambda>(h, values_in_height). fill_height False p d (int h) values_in_height"
  let ?good = "\<lambda>x :: nat \<times> 'a list. int (length (snd x)) = width a"
  let ?C = "\<lambda>x :: nat \<times> 'a list. row_cells a p d (int (fst x))"
  have loop: "if (\<forall>x\<in>set (enumerate 0 rows). ?good x)
     then (\<exists>s'. for_loop ?body (enumerate 0 rows) s = Done s' \<and> same_shape s' a
             \<and> (\<forall>c\<in>(\<Union>x\<in>set (enumerate 0 rows). ?C x). elem4 s' c = ?g c)
             \<and> (\<forall>c\<in>valid a. c \<notin> (\<Union>x\<in>set (enumerate 0 rows). ?C x) \<longrightarrow> elem4 s' c = elem4 s c))
     else (\<exists>s'. for_loop ?body (enumerate 0 rows) s = Abort RaggedShape s')"
  proof (rule for_loop_cells[where I = "\<lambda>s. same_shape s a"])
    show "same_shape s a" by fact
    show "?C x \<subseteq> valid a" if "x \<in> set (enumerate 0 rows)" for x
      using that True r by (intro cells_valid) (auto simp: in_set_enumerate_eq)
    show "if ?good x
          then (\<exists>s'. ?body x t = Done s' \<and> same_shape s' a \<and> (\<forall>c\<in>?C x. elem4 s' c = ?g c)
                  \<and> (\<forall>c\<in>valid a. c \<notin> ?C x \<longrightarrow> elem4 s' c = elem4 t c))
          else (\<exists>s'. ?body x t = Abort RaggedShape s')"
      if x: "x \<in> set (enumerate 0 rows)" and t: "same_shape t a" for x t
    proof -
      obtain h row where xe: "x = (h, row)" by (cases x)
      have h: "h < length rows" "row = rows ! h" using x by (auto simp: xe in_set_enumerate_eq)
      have hr: "0 \<le> int h" "int h < height a" using h True by auto
      have g: "?g c = (case c of (p, d, h, w) \<Rightarrow> row ! nat w)" if "c \<in> row_cells a p d (int h)" for c
        using that h by (auto simp: row_cells_def)
      show ?thesis
        using fill_height_debug[OF wf t r hr, of row] g by (simp add: xe)
    qed
  qed
  have good: "(\<forall>x\<in>set (enumerate 0 rows). ?good x) \<longleftrightarrow> (\<forall>row\<in>set rows. int (length row) = width a)"
    by (rule ball_enumerate)
  have cells: "(\<Union>x\<in>set (enumerate 0 rows). ?C x) = depth_cells a p d"
    using True by (simp add: UN_enumerate depth_cells_def)
  show ?thesis using loop True hs unfolding good cells by (simp add: fill_depth_def)
qed

lemma fill_plane_debug:
  assumes wf: "well_formed a" and s: "same_shape s a"
    and r: "0 \<le> p" "p < planes a"
  shows "if int (length ds) = depth a
            \<and> (\<forall>rows\<in>set ds. int (length rows) = height a \<and> (\<forall>row\<in>set rows. int (length row) = width a))
         then (\<exists>s'. fill_plane False p ds s = Done s' \<and> same_shape s' a
            \<and> (\<forall>c\<in>plane_cells a p. elem4 s' c = (case c of (p, d, h, w) \<Rightarrow> ds ! nat d ! nat h ! nat w))
            \<and> (\<forall>c\<in>valid a. c \<notin> plane_cells a p \<longrightarrow> elem4 s' c = elem4 s c))
         else (\<exists>s'. fill_plane False p ds s = Abort RaggedShape s')"
proof (cases "int (length ds) = depth a")
  case False
  then show ?thesis using s by (simp add: fill_plane_def same_shape_def)
next
  case True
  have hs: "depth s = depth a" using s by (simp add: same_shape_def)
  let ?g = "\<lambda>c :: int \<times> int \<times> int \<times> int. case c of (p, d, h, w) \<Rightarrow> ds ! nat d ! nat h ! nat w"
  let ?body = "\<lambda>(d, values_in_depth). fill_depth False p (int d) values_in_depth"
  let ?good = "\<lambda>x :: nat \<times> 'a list list.
      int (length (snd x)) = height a \<and> (\<forall>row\<in>set (snd x). int (length row) = width a)"
  let ?C = "\<lambda>x :: nat \<times> 'a list list. depth_cells a p (int (fst x))"
  have loop: "if (\<forall>x\<in>set (enumerate 0 ds). ?good x)
     then (\<exists>s'. for_loop ?body (enumerate 0 ds) s = Done s' \<and> same_shape s' a
             \<and> (\<forall>c\<in>(\<Union>x\<in>set (enumerate 0 ds). ?C x). elem4 s' c = ?g c)
             \<and> (\<forall>c\<in>valid a. c \<notin> (\<Union>x\<in>set (enumerate 0 ds). ?C x) \<longrightarrow> elem4 s' c = elem4 s c))
     else (\<exists>s'. for_loop ?body (enumerate 0 ds) s = Abort RaggedShape s')"
  proof (rule for_loop_cells[where I = "\<lambda>s. same_shape s a"])
    show "same_shape s a" by fact
    show "?C x \<subseteq> valid a" if "x \<in> set (enumerate 0 ds)" for x
      using that True r by (intro cells_valid) (auto simp: in_set_enumerate_eq)
    show "if ?good x
          then (\<exists>s'. ?body x t = Done s' \<and> same_shape s' a \<and> (\<forall>c\<in>?C x. elem4 s' c = ?g c)
                  \<and> (\<forall>c\<in>valid a. c \<notin> ?C x \<longrightarrow> elem4 s' c = elem4 t c))
          else (\<exists>s'. ?body x t = Abort RaggedShape s')"
      if x: "x \<in> set (enumerate 0 ds)" and t: "same_shape t a" for x t
    proof -
      obtain d rows where xe: "x = (d, rows)" by (cases x)
      have d: "d < length ds" "rows = ds ! d" using x by (auto simp: xe in_set_enumerate_eq)
      have dr: "0 \<le> int d" "int d < depth a" using d True by auto
      have g: "?g c = (case c of (p, d, h, w) \<Rightarrow> rows ! nat h ! nat w)"
        if "c \<in> depth_cells a p (int d)" for c
        using that d by (auto simp: row_cells_def depth_cells_def)
      show ?thesis
        using fill_depth_debug[OF wf t r dr, of rows] g by (simp add: xe)
    qed
  qed
  have good: "(\<forall>x\<in>set (enumerate 0 ds). ?good x)
      \<longleftrightarrow> (\<forall>rows\<in>set ds. int (length rows) = height a \<and> (\<forall>row\<in>set rows. int (length row) = width a))"
    by (rule ball_enumerate)
  have cells: "(\<Union>x\<in>set (enumerate 0 ds). ?C x) = plane_cells a p"
    using True by (simp add: UN_enumerate plane_cells_def)
  show ?thesis using loop True hs unfolding good cells by (simp add: fill_plane_def)
qed

lemma Array4D_nested_cons:
  "Array4D_nested ndebug (((row0 # rest2) # rest1) # rest0) =
     (case Array4D (int (length (((row0 # rest2) # rest1) # rest0)))
             (int (length ((row0 # rest2) # rest1))) (int (length (row0 # rest2)))
             (int (length row0)) of
        Inl e \<Rightarrow> Inl e
      | Inr a \<Rightarrow>
         (case for_loop (\<lambda>(p, values_in_plane). fill_plane ndebug (int p) values_in_plane)
                 (enumerate 0 (((row0 # rest2) # rest1) # rest0)) a of
            Done a' \<Rightarrow> Inr a'
          | Abort e _ \<Rightarrow> Inl e))"
  unfolding Array4D_nested_def list.case ..

lemma Array4D_nested_nonempty:
  assumes "lit \<noteq> []" "hd lit \<noteq> []" "hd (hd lit) \<noteq> []"
  shows "Array4D_nested ndebug lit =
     (case Array4D (int (length lit)) (int (length (hd lit))) (int (length (hd (hd lit))))
             (int (length (hd (hd (hd lit))))) of
        Inl e \<Rightarrow> Inl e
      | Inr a \<Rightarrow>
         (case for_loop (\<lambda>(p, values_in_plane). fill_plane ndebug (int p) values_in_plane)
                 (enumerate 0 lit) a of
            Done a' \<Rightarrow> Inr a'
          | Abort e _ \<Rightarrow> Inl e))"
proof -
  obtain pl0 rest0 where l0: "lit = pl0 # rest0" using assms(1) by (cases lit) auto
  obtain dp0 rest1 where l1: "pl0 = dp0 # rest1" using assms(2) l0 by (cases pl0) auto
  obtain row0 rest2 where l2: "dp0 = row0 # rest2" using assms(3) l0 l1 by (cases dp0) auto
  show ?thesis
    unfolding l0 l1 l2 list.sel by (rule Array4D_nested_cons)
qed

text \<open>
  When the product of the four lengths fits in \<^verbatim>\<open>int64\<close>, the delegated constructor
  returns a zero-filled container with one slot per coordinate.
\<close>

lemma Array4D_literal:
  fixes lit :: "'b list list list list"
  assumes "in_int64 (literal_size lit)"
  shows "Array4D (int (length lit)) (int (length (hd lit))) (int (length (hd (hd lit))))
           (int (length (hd (hd (hd lit)))))
       = Inr \<lparr>planes = int (length lit), depth = int (length (hd lit)),
               height = int (length (hd (hd lit))), width = int (length (hd (hd (hd lit)))),
               vals = replicate (nat (literal_size lit)) (0 :: 'a :: zero)\<rparr>"
proof -
  have "0 \<le> literal_size lit"
    unfolding literal_size_def by (intro mult_nonneg_nonneg) simp_all
  then have np: "\<not> literal_size lit < 0" by linarith
  have "dims_product (int (length lit)) (int (length (hd lit))) (int (length (hd (hd lit))))
           (int (length (hd (hd (hd lit))))) = literal_size lit"
    using assms unfolding literal_size_def by (rule dims_product_exact)
  then show ?thesis using np by (simp add: Array4D_def)
qed

lemma Array4D_nested_debug:
  fixes lit :: "('a::zero) list list list list"
  assumes fit: "in_int64 (literal_size lit)"
    and ne: "lit \<noteq> []" "hd lit \<noteq> []" "hd (hd lit) \<noteq> []"
  shows "if rectangular lit
         then (\<exists>a. Array4D_nested False lit = Inr a \<and> well_formed a
                \<and> planes a = int (length lit) \<and> depth a = int (length (hd lit))
                \<and> height a = int (length (hd (hd lit)))
                \<and> width a = int (length (hd (hd (hd lit))))
                \<and> (\<forall>c\<in>valid a. elem4 a c = (case c of (p, d, h, w) \<Rightarrow> literal_at lit p d h w)))
         else Array4D_nested False lit = Inl RaggedShape"
proof -
  define a0 :: "'a array4d" where "a0 = \<lparr>planes = int (length lit), depth = int (length (hd lit)),
      height = int (length (hd (hd lit))), width = int (length (hd (hd (hd lit)))),
      vals = replicate (nat (int (length lit) * int (length (hd lit))
                * int (length (hd (hd lit))) * int (length (hd (hd (hd lit)))))) 0\<rparr>"
  let ?body = "\<lambda>(p, values_in_plane). fill_plane False (int p) values_in_plane"
  have np: "0 \<le> int (length lit) * int (length (hd lit)) * int (length (hd (hd lit)))
        * int (length (hd (hd (hd lit))))"
    by (intro mult_nonneg_nonneg) simp_all
  then have np': "\<not> int (length lit) * int (length (hd lit)) * int (length (hd (hd lit)))
        * int (length (hd (hd (hd lit)))) < 0"
    by linarith
  have ctor: "Array4D (int (length lit)) (int (length (hd lit)))
      (int (length (hd (hd lit)))) (int (length (hd (hd (hd lit))))) = Inr a0"
    by (simp add: Array4D_literal[OF fit] a0_def literal_size_def)
  have wf: "well_formed a0"
    by (simp add: a0_def well_formed_def n1_def n2_def n3_def n4_def np)
  have dims: "planes a0 = int (length lit)" "depth a0 = int (length (hd lit))"
    "height a0 = int (length (hd (hd lit)))" "width a0 = int (length (hd (hd (hd lit))))"
    by (simp_all add: a0_def)
  have unfold: "Array4D_nested False lit =
      (case for_loop ?body (enumerate 0 lit) a0 of Done a' \<Rightarrow> Inr a' | Abort e _ \<Rightarrow> Inl e)"
    unfolding Array4D_nested_nonempty[OF ne] ctor by simp
  let ?g = "\<lambda>c :: int \<times> int \<times> int \<times> int. case c of (p, d, h, w) \<Rightarrow> literal_at lit p d h w"
  let ?good = "\<lambda>x :: nat \<times> 'a list list list. int (length (snd x)) = depth a0
      \<and> (\<forall>rows\<in>set (snd x). int (length rows) = height a0 \<and> (\<forall>row\<in>set rows. int (length row) = width a0))"
  let ?C = "\<lambda>x :: nat \<times> 'a list list list. plane_cells a0 (int (fst x))"
  have loop: "if (\<forall>x\<in>set (enumerate 0 lit). ?good x)
     then (\<exists>s'. for_loop ?body (enumerate 0 lit) a0 = Done s' \<and> same_shape s' a0
             \<and> (\<forall>c\<in>(\<Union>x\<in>set (enumerate 0 lit). ?C x). elem4 s' c = ?g c)
             \<and> (\<forall>c\<in>valid a0. c \<notin> (\<Union>x\<in>set (enumerate 0 lit). ?C x) \<longrightarrow> elem4 s' c = elem4 a0 c))
     else (\<exists>s'. for_loop ?body (enumerate 0 lit) a0 = Abort RaggedShape s')"
  proof (rule for_loop_cells[where I = "\<lambda>s. same_shape s a0"])
    show "same_shape a0 a0" by simp
    show "?C x \<subseteq> valid a0" if "x \<in> set (enumerate 0 lit)" for x
      using that dims by (intro cells_valid) (auto simp: in_set_enumerate_eq)
    show "if ?good x
          then (\<exists>s'. ?body x t = Done s' \<and> same_shape s' a0 \<and> (\<forall>c\<in>?C x. elem4 s' c = ?g c)
                  \<and> (\<forall>c\<in>valid a0. c \<notin> ?C x \<longrightarrow> elem4 s' c = elem4 t c))
          else (\<exists>s'. ?body x t = Abort RaggedShape s')"
      if x: "x \<in> set (enumerate 0 lit)" and t: "same_shape t a0" for x t
    proof -
      obtain p ds where xe: "x = (p, ds)" by (cases x)
      have p: "p < length lit" "ds = lit ! p" using x by (auto simp: xe in_set_enumerate_eq)
      have pr: "0 \<le> int p" "int p < planes a0" using p dims by auto
      have g: "?g c = (case c of (p, d, h, w) \<Rightarrow> ds ! nat d ! nat h ! nat w)"
        if "c \<in> plane_cells a0 (int p)" for c
        using that p by (auto simp: row_cells_def depth_cells_def plane_cells_def literal_at_def)
      show ?thesis
        using fill_plane_debug[OF wf t pr, of ds] g by (simp add: xe)
    qed
  qed
  have good: "(\<forall>x\<in>set (enumerate 0 lit). ?good x) \<longleftrightarrow> rectangular lit"
    unfolding ball_enumerate[where xs = lit and P = "\<lambda>pl. int (length pl) = depth a0
      \<and> (\<forall>rows\<in>set pl. int (length rows) = height a0 \<and> (\<forall>row\<in>set rows. int (length row) = width a0))"]
    by (simp add: rectangular_def dims)
  have cells: "(\<Union>x\<in>set (enumerate 0 lit). ?C x) = valid a0"
    by (simp add: UN_enumerate valid_planes dims)
  show ?thesis
  proof (cases "rectangular lit")
    case True
    then obtain s' where s': "for_loop ?body (enumerate 0 lit) a0 = Done s'" "same_shape s' a0"
      "\<forall>c\<in>valid a0. elem4 s' c = ?g c"
      using loop unfolding good cells by auto
    have "valid s' = valid a0" using s'(2) by (simp add: valid_def same_shape_in_range)
    moreover have "well_formed s'" using s'(2) wf by (rule same_shape_well_formed)
    ultimately show ?thesis using True s' dims unfold by (simp add: same_shape_def)
  next
    case False
    then show ?thesis using loop unfold unfolding good by auto
  qed
qed

lemma fill_height_not_undefined:
  assumes "well_formed t" "0 \<le> p" "0 \<le> d" "0 \<le> h"
  shows "fill_height ndebug p d h row t \<noteq> Abort Undefined t'"
proof -
  have "for_loop (\<lambda>(w, element_value). At_put p d h (int w) element_value)
             (enumerate 0 row) t \<noteq> Abort Undefined t'"
  proof (rule for_loop_never[where I = well_formed])
    show "well_formed t" by fact
    show "well_formed (state_of ((case x of (w, element_value) \<Rightarrow> At_put p d h (int w) element_value) s))"
      if "well_formed s" for x s
      using that by (cases x) (simp add: well_formed_state[OF At_put_same_shape])
    show "(case x of (w, element_value) \<Rightarrow> At_put p d h (int w) element_value) s \<noteq> Abort Undefined s'"
      if "well_formed s" for x s s'
      using that assms(2,3,4) by (cases x) (simp add: At_put_not_undefined)
  qed
  then show ?thesis by (simp add: fill_height_def)
qed

lemma fill_depth_not_undefined:
  assumes "well_formed t" "0 \<le> p" "0 \<le> d"
  shows "fill_depth ndebug p d rows t \<noteq> Abort Undefined t'"
proof -
  have "for_loop (\<lambda>(h, values_in_height). fill_height ndebug p d (int h) values_in_height)
             (enumerate 0 rows) t \<noteq> Abort Undefined t'"
  proof (rule for_loop_never[where I = well_formed])
    show "well_formed t" by fact
    show "well_formed (state_of ((case x of (h, values_in_height) \<Rightarrow>
              fill_height ndebug p d (int h) values_in_height) s))"
      if "well_formed s" for x s
      using that by (cases x) (simp add: well_formed_state[OF fill_height_same_shape])
    show "(case x of (h, values_in_height) \<Rightarrow> fill_height ndebug p d (int h) values_in_height) s
        \<noteq> Abort Undefined s'"
      if "well_formed s" for x s s'
      using that assms(2,3) by (cases x) (simp add: fill_height_not_undefined)
  qed
  then show ?thesis by (simp add: fill_depth_def)
qed

lemma fill_plane_not_undefined:
  assumes "well_formed t" "0 \<le> p"
  shows "fill_plane ndebug p ds t \<noteq> Abort Undefined t'"
proof -
  have "for_loop (\<lambda>(d, values_in_depth). fill_depth ndebug p (int d) values_in_depth)
             (enumerate 0 ds) t \<noteq> Abort Undefined t'"
  proof (rule for_loop_never[where I = well_formed])
    show "well_formed t" by fact
    show "well_formed (state_of ((case x of (d, values_in_depth) \<Rightarrow>
              fill_depth ndebug p (int d) values_in_depth) s))"
      if "well_formed s" for x s
      using that by (cases x) (simp add: well_formed_state[OF fill_depth_same_shape])
    show "(case x of (d, values_in_depth) \<Rightarrow> fill_depth ndebug p (int d) values_in_depth) s
        \<noteq> Abort Undefined s'"
      if "well_formed s" for x s s'
      using that assms(2) by (cases x) (simp add: fill_depth_not_undefined)
  qed
  then show ?thesis by (simp add: fill_plane_def)
qed

lemma Array4D_nested_defined:
  fixes lit :: "('a::zero) list list list list"
  assumes fit: "in_int64 (literal_size lit)"
    and ne: "lit \<noteq> []" "hd lit \<noteq> []" "hd (hd lit) \<noteq> []"
  shows "Array4D_nested ndebug lit \<noteq> Inl Undefined"
proof -
  obtain a0 :: "'a array4d" where ctor: "Array4D (int (length lit)) (int (length (hd lit)))
      (int (length (hd (hd lit)))) (int (length (hd (hd (hd lit))))) = Inr a0"
    by (simp add: Array4D_literal[OF fit])
  have wf: "well_formed a0"
    using fit ctor unfolding literal_size_def by (rule Array4D_well_formed)
  have "for_loop (\<lambda>(p, values_in_plane). fill_plane ndebug (int p) values_in_plane)
                 (enumerate 0 lit) a0 \<noteq> Abort Undefined t'" for t'
  proof (rule for_loop_never[where I = well_formed])
    show "well_formed a0" by fact
    show "well_formed (state_of ((case x of (p, values_in_plane) \<Rightarrow>
              fill_plane ndebug (int p) values_in_plane) s))"
      if "well_formed s" for x s
      using that by (cases x) (simp add: well_formed_state[OF fill_plane_same_shape])
    show "(case x of (p, values_in_plane) \<Rightarrow> fill_plane ndebug (int p) values_in_plane) s
        \<noteq> Abort Undefined s'"
      if "well_formed s" for x s s'
      using that by (cases x) (simp add: fill_plane_not_undefined)
  qed
  then show ?thesis
    unfolding Array4D_nested_nonempty[OF ne] ctor by (auto split: outcome.splits)
qed

lemma Array4D_nested_empty:
  assumes "lit = [] \<or> hd lit = [] \<or> hd (hd lit) = []"
  shows "Array4D_nested ndebug lit = Inl Undefined"
  using assms by (auto simp: Array4D_nested_def split: list.splits)

text \<open>
  When the product of the four lengths wraps to zero, the container has no storage and
  the first element of the literal is written outside the vector.
\<close>

lemma Array4D_nested_no_storage:
  fixes lit :: "('a::zero) list list list list"
  assumes zero: "dims_product (int (length lit)) (int (length (hd lit)))
       (int (length (hd (hd lit)))) (int (length (hd (hd (hd lit))))) = 0"
    and ne: "lit \<noteq> []" "hd lit \<noteq> []" "hd (hd lit) \<noteq> []" "hd (hd (hd lit)) \<noteq> []"
  shows "Array4D_nested ndebug lit = Inl Undefined"
proof -
  obtain pl0 rest0 where l0: "lit = pl0 # rest0" using ne(1) by (cases lit) auto
  obtain dp0 rest1 where l1: "pl0 = dp0 # rest1" using ne(2) l0 by (cases pl0) auto
  obtain row0 rest2 where l2: "dp0 = row0 # rest2" using ne(3) l0 l1 by (cases dp0) auto
  obtain x rest3 where l3: "row0 = x # rest3" using ne(4) l0 l1 l2 by (cases row0) auto
  define a0 :: "'a array4d" where "a0 = \<lparr>planes = int (length lit), depth = int (length pl0),
      height = int (length dp0), width = int (length row0), vals = []\<rparr>"
  have ctor: "Array4D (int (length lit)) (int (length (hd lit)))
      (int (length (hd (hd lit)))) (int (length (hd (hd (hd lit))))) = Inr a0"
    unfolding Array4D_def zero by (simp add: a0_def l0 l1 l2)
  have put: "At_put 0 0 0 0 x a0 = Abort Undefined a0"
    by (simp add: At_put_def a0_def l0 l1 l2 l3 linear_index_def)
  have row: "fill_height ndebug 0 0 0 row0 a0 = Abort Undefined a0"
    using put by (simp add: fill_height_def l3 a0_def enumerate_simps)
  have dep: "fill_depth ndebug 0 0 dp0 a0 = Abort Undefined a0"
    using row by (simp add: fill_depth_def l2 a0_def enumerate_simps)
  have pla: "fill_plane ndebug 0 pl0 a0 = Abort Undefined a0"
    using dep by (simp add: fill_plane_def l1 a0_def enumerate_simps)
  have "for_loop (\<lambda>(p, values_in_plane). fill_plane ndebug (int p) values_in_plane)
          (enumerate 0 lit) a0 = Abort Undefined a0"
    using pla by (simp add: l0 enumerate_simps)
  then show ?thesis
    unfolding Array4D_nested_nonempty[OF ne(1-3)] ctor by simp
qed

lemma Array4D_nested_well_formed:
  fixes lit :: "('a::zero) list list list list"
  assumes fit: "in_int64 (literal_size lit)" and b: "Array4D_nested ndebug lit = Inr b"
  shows "well_formed b"
proof -
  have ne: "lit \<noteq> []" "hd lit \<noteq> []" "hd (hd lit) \<noteq> []"
    using b Array4D_nested_empty[of lit ndebug] by auto
  obtain a :: "'a array4d" where ctor: "Array4D (int (length lit)) (int (length (hd lit)))
      (int (length (hd (hd lit)))) (int (length (hd (hd (hd lit))))) = Inr a"
    by (simp add: Array4D_literal[OF fit])
  have a: "well_formed a"
    using fit ctor unfolding literal_size_def by (rule Array4D_well_formed)
  have "same_shape (state_of (for_loop (\<lambda>(p, values_in_plane). fill_plane ndebug (int p) values_in_plane)
                 (enumerate 0 lit) a)) a"
    by (intro for_loop_same_shape) (auto simp: fill_plane_same_shape split: prod.splits)
  moreover have "for_loop (\<lambda>(p, values_in_plane). fill_plane ndebug (int p) values_in_plane)
                 (enumerate 0 lit) a = Done b"
    using b unfolding Array4D_nested_nonempty[OF ne] ctor by (auto split: outcome.splits)
  ultimately show ?thesis using a same_shape_well_formed by (simp add: state_of_def)
qed

subsection \<open>Without the length checks\<close>

lemma At_put_out_of_range:
  "\<not> (p < planes s \<and> d < depth s \<and> h < height s \<and> w < width s)
     \<Longrightarrow> At_put p d h w v s = Abort IndexOutOfRange s"
  by (auto simp: At_put_def)

lemma unchecked_loops:
  "fill_height True p d h row s =
     for_loop (\<lambda>(w, element_value). At_put p d h (int w) element_value) (enumerate 0 row) s"
  "fill_depth True p d rows s =
     for_loop (\<lambda>(h, values_in_height). fill_height True p d (int h) values_in_height)
       (enumerate 0 rows) s"
  "fill_plane True p ds s =
     for_loop (\<lambda>(d, values_in_depth). fill_depth True p (int d) values_in_depth)
       (enumerate 0 ds) s"
  by (simp_all add: fill_height_def fill_depth_def fill_plane_def)

lemma fill_height_unchecked:
  assumes wf: "well_formed a" and s: "same_shape s a" and r: "0 \<le> p" "0 \<le> d" "0 \<le> h"
  shows "if fits_row a p d h row
         then (\<exists>s'. fill_height True p d h row s = Done s' \<and> same_shape s' a
            \<and> (\<forall>c\<in>literal_row_cells p d h row. elem4 s' c = (case c of (p, d, h, w) \<Rightarrow> row ! nat w))
            \<and> (\<forall>c\<in>valid a. c \<notin> literal_row_cells p d h row \<longrightarrow> elem4 s' c = elem4 s c))
         else (\<exists>s'. fill_height True p d h row s = Abort IndexOutOfRange s')"
proof -
  let ?g = "\<lambda>c :: int \<times> int \<times> int \<times> int. case c of (p, d, h, w) \<Rightarrow> row ! nat w"
  let ?body = "\<lambda>(w, element_value). At_put p d h (int w) element_value"
  let ?good = "\<lambda>x :: nat \<times> 'a. p < planes a \<and> d < depth a \<and> h < height a \<and> int (fst x) < width a"
  let ?C = "\<lambda>x :: nat \<times> 'a. {(p, d, h, int (fst x))}"
  have "if (\<forall>x\<in>set (enumerate 0 row). ?good x)
     then (\<exists>s'. for_loop ?body (enumerate 0 row) s = Done s' \<and> same_shape s' a
             \<and> (\<forall>c\<in>(\<Union>x\<in>set (enumerate 0 row). ?C x). elem4 s' c = ?g c)
             \<and> (\<forall>c\<in>valid a. c \<notin> (\<Union>x\<in>set (enumerate 0 row). ?C x) \<longrightarrow> elem4 s' c = elem4 s c))
     else (\<exists>s'. for_loop ?body (enumerate 0 row) s = Abort IndexOutOfRange s')"
  proof (rule for_loop_cells[where I = "\<lambda>s. same_shape s a"])
    show "same_shape s a" by fact
    show "?C x \<subseteq> valid a" if "x \<in> set (enumerate 0 row)" "?good x" for x
      using that r by (auto simp: valid_def in_range_def)
    show "if ?good x
          then (\<exists>s'. ?body x t = Done s' \<and> same_shape s' a \<and> (\<forall>c\<in>?C x. elem4 s' c = ?g c)
                  \<and> (\<forall>c\<in>valid a. c \<notin> ?C x \<longrightarrow> elem4 s' c = elem4 t c))
          else (\<exists>s'. ?body x t = Abort IndexOutOfRange s')"
      if x: "x \<in> set (enumerate 0 row)" and t: "same_shape t a" for x t
    proof (cases "?good x")
      case True
      obtain w e where xe: "x = (w, e)" by (cases x)
      have w: "w < length row" "e = row ! w" using x by (auto simp: xe in_set_enumerate_eq)
      have "in_range a p d h (int w)" using True r by (simp add: in_range_def xe)
      from At_put_cell[OF wf t this, of e] show ?thesis using w True by (simp add: xe)
    next
      case False
      obtain w e where xe: "x = (w, e)" by (cases x)
      have "\<not> (p < planes t \<and> d < depth t \<and> h < height t \<and> int w < width t)"
        using False t by (simp add: xe same_shape_def)
      then show ?thesis using False by (simp add: xe At_put_out_of_range)
    qed
  qed
  then show ?thesis unfolding unchecked_loops fits_row_def literal_row_cells_def .
qed

lemma fill_depth_unchecked:
  assumes wf: "well_formed a" and s: "same_shape s a" and r: "0 \<le> p" "0 \<le> d"
  shows "if fits_depth a p d rows
         then (\<exists>s'. fill_depth True p d rows s = Done s' \<and> same_shape s' a
            \<and> (\<forall>c\<in>literal_depth_cells p d rows.
                  elem4 s' c = (case c of (p, d, h, w) \<Rightarrow> rows ! nat h ! nat w))
            \<and> (\<forall>c\<in>valid a. c \<notin> literal_depth_cells p d rows \<longrightarrow> elem4 s' c = elem4 s c))
         else (\<exists>s'. fill_depth True p d rows s = Abort IndexOutOfRange s')"
proof -
  let ?g = "\<lambda>c :: int \<times> int \<times> int \<times> int. case c of (p, d, h, w) \<Rightarrow> rows ! nat h ! nat w"
  let ?body = "\<lambda>(h, values_in_height). fill_height True p d (int h) values_in_height"
  let ?good = "\<lambda>x :: nat \<times> 'a list. fits_row a p d (int (fst x)) (snd x)"
  let ?C = "\<lambda>x :: nat \<times> 'a list. literal_row_cells p d (int (fst x)) (snd x)"
  have "if (\<forall>x\<in>set (enumerate 0 rows). ?good x)
     then (\<exists>s'. for_loop ?body (enumerate 0 rows) s = Done s' \<and> same_shape s' a
             \<and> (\<forall>c\<in>(\<Union>x\<in>set (enumerate 0 rows). ?C x). elem4 s' c = ?g c)
             \<and> (\<forall>c\<in>valid a. c \<notin> (\<Union>x\<in>set (enumerate 0 rows). ?C x) \<longrightarrow> elem4 s' c = elem4 s c))
     else (\<exists>s'. for_loop ?body (enumerate 0 rows) s = Abort IndexOutOfRange s')"
  proof (rule for_loop_cells[where I = "\<lambda>s. same_shape s a"])
    show "same_shape s a" by fact
    show "?C x \<subseteq> valid a" if "x \<in> set (enumerate 0 rows)" "?good x" for x
      using that r
      by (auto simp: valid_def in_range_def literal_row_cells_def fits_row_def)
    show "if ?good x
          then (\<exists>s'. ?body x t = Done s' \<and> same_shape s' a \<and> (\<forall>c\<in>?C x. elem4 s' c = ?g c)
                  \<and> (\<forall>c\<in>valid a. c \<notin> ?C x \<longrightarrow> elem4 s' c = elem4 t c))
          else (\<exists>s'. ?body x t = Abort IndexOutOfRange s')"
      if x: "x \<in> set (enumerate 0 rows)" and t: "same_shape t a" for x t
    proof -
      obtain h row where xe: "x = (h, row)" by (cases x)
      have h: "h < length rows" "row = rows ! h" using x by (auto simp: xe in_set_enumerate_eq)
      have g: "?g c = (case c of (p, d, h, w) \<Rightarrow> row ! nat w)"
        if "c \<in> literal_row_cells p d (int h) row" for c
        using that h by (auto simp: literal_row_cells_def)
      show ?thesis
        using fill_height_unchecked[OF wf t r, of "int h" row] g by (simp add: xe)
    qed
  qed
  then show ?thesis unfolding unchecked_loops(2) fits_depth_def literal_depth_cells_def .
qed

lemma fill_plane_unchecked:
  assumes wf: "well_formed a" and s: "same_shape s a" and r: "0 \<le> p"
  shows "if fits_plane a p ds
         then (\<exists>s'. fill_plane True p ds s = Done s' \<and> same_shape s' a
            \<and> (\<forall>c\<in>literal_plane_cells p ds.
                  elem4 s' c = (case c of (p, d, h, w) \<Rightarrow> ds ! nat d ! nat h ! nat w))
            \<and> (\<forall>c\<in>valid a. c \<notin> literal_plane_cells p ds \<longrightarrow> elem4 s' c = elem4 s c))
         else (\<exists>s'. fill_plane True p ds s = Abort IndexOutOfRange s')"
proof -
  let ?g = "\<lambda>c :: int \<times> int \<times> int \<times> int. case c of (p, d, h, w) \<Rightarrow> ds ! nat d ! nat h ! nat w"
  let ?body = "\<lambda>(d, values_in_depth). fill_depth True p (int d) values_in_depth"
  let ?good = "\<lambda>x :: nat \<times> 'a list list. fits_depth a p (int (fst x)) (snd x)"
  let ?C = "\<lambda>x :: nat \<times> 'a list list. literal_depth_cells p (int (fst x)) (snd x)"
  have "if (\<forall>x\<in>set (enumerate 0 ds). ?good x)
     then (\<exists>s'. for_loop ?body (enumerate 0 ds) s = Done s' \<and> same_shape s' a
             \<and> (\<forall>c\<in>(\<Union>x\<in>set (enumerate 0 ds). ?C x). elem4 s' c = ?g c)
             \<and> (\<forall>c\<in>valid a. c \<notin> (\<Union>x\<in>set (enumerate 0 ds). ?C x) \<longrightarrow> elem4 s' c = elem4 s c))
     else (\<exists>s'. for_loop ?body (enumerate 0 ds) s = Abort IndexOutOfRange s')"
  proof (rule for_loop_cells[where I = "\<lambda>s. same_shape s a"])
    show "same_shape s a" by fact
    show "?C x \<subseteq> valid a" if "x \<in> set (enumerate 0 ds)" "?good x" for x
      using that r
      by (auto simp: valid_def in_range_def literal_row_cells_def literal_depth_cells_def
          fits_row_def fits_depth_def)
    show "if ?good x
          then (\<exists>s'. ?body x t = Done s' \<and> same_shape s' a \<and> (\<forall>c\<in>?C x. elem4 s' c = ?g c)
                  \<and> (\<forall>c\<in>valid a. c \<notin> ?C x \<longrightarrow> elem4 s' c = elem4 t c))
          else (\<exists>s'. ?body x t = Abort IndexOutOfRange s')"
      if x: "x \<in> set (enumerate 0 ds)" and t: "same_shape t a" for x t
    proof -
      obtain d rows where xe: "x = (d, rows)" by (cases x)
      have d: "d < length ds" "rows = ds ! d" using x by (auto simp: xe in_set_enumerate_eq)
      have g: "?g c = (case c of (p, d, h, w) \<Rightarrow> rows ! nat h ! nat w)"
        if "c \<in> literal_depth_cells p (int d) rows" for c
        using that d by (auto simp: literal_row_cells_def literal_depth_cells_def)
      show ?thesis
        using fill_depth_unchecked[OF wf t r, of "int d" rows] g by (simp add: xe)
    qed
  qed
  then show ?thesis unfolding unchecked_loops(3) fits_plane_def literal_plane_cells_def .
qed

lemma enumerate_member: "k < length xs \<Longrightarrow> (k, xs ! k) \<in> set (enumerate 0 xs)"
  by (simp add: in_set_enumerate_eq)

lemma in_literal_cells:
  assumes "in_literal lit p d h w"
  shows "(int p, int d, int h, int w) \<in> literal_cells lit"
proof -
  have 1: "(p, lit ! p) \<in> set (enumerate 0 lit)"
    and 2: "(d, lit ! p ! d) \<in> set (enumerate 0 (lit ! p))"
    and 3: "(h, lit ! p ! d ! h) \<in> set (enumerate 0 (lit ! p ! d))"
    and 4: "(w, lit ! p ! d ! h ! w) \<in> set (enumerate 0 (lit ! p ! d ! h))"
    using assms by (simp_all add: in_literal_def enumerate_member)
  have "(int p, int d, int h, int w) \<in> literal_row_cells (int p) (int d) (int h) (lit ! p ! d ! h)"
    unfolding literal_row_cells_def using 4 by force
  then have "(int p, int d, int h, int w) \<in> literal_depth_cells (int p) (int d) (lit ! p ! d)"
    unfolding literal_depth_cells_def using 3 by force
  then have "(int p, int d, int h, int w) \<in> literal_plane_cells (int p) (lit ! p)"
    unfolding literal_plane_cells_def using 2 by force
  then show ?thesis
    unfolding literal_cells_def using 1 by force
qed

lemma fits_in_range:
  assumes "fits a lit" and "in_literal lit p d h w"
  shows "in_range a (int p) (int d) (int h) (int w)"
proof -
  have 1: "(p, lit ! p) \<in> set (enumerate 0 lit)"
    and 2: "(d, lit ! p ! d) \<in> set (enumerate 0 (lit ! p))"
    and 3: "(h, lit ! p ! d ! h) \<in> set (enumerate 0 (lit ! p ! d))"
    and 4: "(w, lit ! p ! d ! h ! w) \<in> set (enumerate 0 (lit ! p ! d ! h))"
    using assms(2) by (simp_all add: in_literal_def enumerate_member)
  have "fits_plane a (int p) (lit ! p)" using assms(1) 1 unfolding fits_def by force
  then have "fits_depth a (int p) (int d) (lit ! p ! d)" using 2 unfolding fits_plane_def by force
  then have "fits_row a (int p) (int d) (int h) (lit ! p ! d ! h)"
    using 3 unfolding fits_depth_def by force
  then have "int p < planes a \<and> int d < depth a \<and> int h < height a \<and> int w < width a"
    using 4 unfolding fits_row_def by force
  then show ?thesis by (simp add: in_range_def)
qed

lemma rectangular_in_literal:
  assumes "rectangular lit" and "in_literal lit p d h w"
  shows "p < length lit \<and> d < length (hd lit) \<and> h < length (hd (hd lit))
       \<and> w < length (hd (hd (hd lit)))"
proof -
  have p: "lit ! p \<in> set lit" "p < length lit" using assms(2) by (simp_all add: in_literal_def)
  have d: "lit ! p ! d \<in> set (lit ! p)" "d < length (lit ! p)"
    using assms(2) by (simp_all add: in_literal_def)
  have h: "lit ! p ! d ! h \<in> set (lit ! p ! d)" "h < length (lit ! p ! d)"
    using assms(2) by (simp_all add: in_literal_def)
  have w: "w < length (lit ! p ! d ! h)" using assms(2) by (simp add: in_literal_def)
  have "length (lit ! p) = length (hd lit)" "length (lit ! p ! d) = length (hd (hd lit))"
    "length (lit ! p ! d ! h) = length (hd (hd (hd lit)))"
    using assms(1) p(1) d(1) h(1) unfolding rectangular_def by blast+
  then show ?thesis using p d h w by simp
qed

lemma rectangular_fits:
  assumes "rectangular lit"
    and "planes a = int (length lit)" and "depth a = int (length (hd lit))"
    and "height a = int (length (hd (hd lit)))" and "width a = int (length (hd (hd (hd lit))))"
  shows "fits a lit"
  unfolding fits_def fits_plane_def fits_depth_def fits_row_def
proof (intro ballI)
  fix x y z u
  assume x: "x \<in> set (enumerate 0 lit)" and y: "y \<in> set (enumerate 0 (snd x))"
    and z: "z \<in> set (enumerate 0 (snd y))" and u: "u \<in> set (enumerate 0 (snd z))"
  have "in_literal lit (fst x) (fst y) (fst z) (fst u)"
    using x y z u by (auto simp: in_literal_def in_set_enumerate_eq)
  then show "int (fst x) < planes a \<and> int (fst y) < depth a \<and> int (fst z) < height a
      \<and> int (fst u) < width a"
    using rectangular_in_literal[OF assms(1)] assms(2-) by auto
qed

lemma Array4D_nested_unchecked:
  fixes lit :: "('a::zero) list list list list"
  assumes fit: "in_int64 (literal_size lit)"
    and ne: "lit \<noteq> []" "hd lit \<noteq> []" "hd (hd lit) \<noteq> []"
  shows "\<exists>a0 :: 'a array4d. Array4D (int (length lit)) (int (length (hd lit)))
            (int (length (hd (hd lit)))) (int (length (hd (hd (hd lit))))) = Inr a0
      \<and> (if fits a0 lit
          then (\<exists>a. Array4D_nested True lit = Inr a \<and> same_shape a a0
                 \<and> (\<forall>c\<in>literal_cells lit. elem4 a c = (case c of (p, d, h, w) \<Rightarrow> literal_at lit p d h w)))
          else Array4D_nested True lit = Inl IndexOutOfRange)"
proof -
  obtain a0 :: "'a array4d" where ctor: "Array4D (int (length lit)) (int (length (hd lit)))
      (int (length (hd (hd lit)))) (int (length (hd (hd (hd lit))))) = Inr a0"
    by (simp add: Array4D_literal[OF fit])
  have wf: "well_formed a0"
    using fit ctor unfolding literal_size_def by (rule Array4D_well_formed)
  let ?body = "\<lambda>(p, values_in_plane). fill_plane True (int p) values_in_plane"
  have unfold: "Array4D_nested True lit =
      (case for_loop ?body (enumerate 0 lit) a0 of Done a' \<Rightarrow> Inr a' | Abort e _ \<Rightarrow> Inl e)"
    unfolding Array4D_nested_nonempty[OF ne] ctor by simp
  let ?g = "\<lambda>c :: int \<times> int \<times> int \<times> int. case c of (p, d, h, w) \<Rightarrow> literal_at lit p d h w"
  let ?good = "\<lambda>x :: nat \<times> 'a list list list. fits_plane a0 (int (fst x)) (snd x)"
  let ?C = "\<lambda>x :: nat \<times> 'a list list list. literal_plane_cells (int (fst x)) (snd x)"
  have loop: "if (\<forall>x\<in>set (enumerate 0 lit). ?good x)
     then (\<exists>s'. for_loop ?body (enumerate 0 lit) a0 = Done s' \<and> same_shape s' a0
             \<and> (\<forall>c\<in>(\<Union>x\<in>set (enumerate 0 lit). ?C x). elem4 s' c = ?g c)
             \<and> (\<forall>c\<in>valid a0. c \<notin> (\<Union>x\<in>set (enumerate 0 lit). ?C x) \<longrightarrow> elem4 s' c = elem4 a0 c))
     else (\<exists>s'. for_loop ?body (enumerate 0 lit) a0 = Abort IndexOutOfRange s')"
  proof (rule for_loop_cells[where I = "\<lambda>s. same_shape s a0"])
    show "same_shape a0 a0" by simp
    show "?C x \<subseteq> valid a0" if "x \<in> set (enumerate 0 lit)" "?good x" for x
      using that
      by (auto simp: valid_def in_range_def literal_row_cells_def literal_depth_cells_def
          literal_plane_cells_def fits_row_def fits_depth_def fits_plane_def)
    show "if ?good x
          then (\<exists>s'. ?body x t = Done s' \<and> same_shape s' a0 \<and> (\<forall>c\<in>?C x. elem4 s' c = ?g c)
                  \<and> (\<forall>c\<in>valid a0. c \<notin> ?C x \<longrightarrow> elem4 s' c = elem4 t c))
          else (\<exists>s'. ?body x t = Abort IndexOutOfRange s')"
      if x: "x \<in> set (enumerate 0 lit)" and t: "same_shape t a0" for x t
    proof -
      obtain p ds where xe: "x = (p, ds)" by (cases x)
      have p: "p < length lit" "ds = lit ! p" using x by (auto simp: xe in_set_enumerate_eq)
      have g: "?g c = (case c of (p, d, h, w) \<Rightarrow> ds ! nat d ! nat h ! nat w)"
        if "c \<in> literal_plane_cells (int p) ds" for c
        using that p
        by (auto simp: literal_row_cells_def literal_depth_cells_def literal_plane_cells_def
            literal_at_def)
      show ?thesis
        using fill_plane_unchecked[OF wf t, of "int p" ds] g by (simp add: xe)
    qed
  qed
  have "if fits a0 lit
          then (\<exists>a. Array4D_nested True lit = Inr a \<and> same_shape a a0
                 \<and> (\<forall>c\<in>literal_cells lit. elem4 a c = ?g c))
          else Array4D_nested True lit = Inl IndexOutOfRange"
  proof (cases "fits a0 lit")
    case True
    then obtain s' where "for_loop ?body (enumerate 0 lit) a0 = Done s'" "same_shape s' a0"
      "\<forall>c\<in>literal_cells lit. elem4 s' c = ?g c"
      using loop unfolding fits_def literal_cells_def by auto
    then show ?thesis using True unfold by simp
  next
    case False
    then have "\<not> (\<forall>x\<in>set (enumerate 0 lit). ?good x)" unfolding fits_def .
    then have "\<exists>s'. for_loop ?body (enumerate 0 lit) a0 = Abort IndexOutOfRange s'"
      using loop by (simp only: if_False)
    then show ?thesis using False unfold by auto
  qed
  then show ?thesis using ctor by blast
qed

lemma Array4D_dims:
  assumes "Array4D np nd nh nw = Inr a"
  shows "planes a = np \<and> depth a = nd \<and> height a = nh \<and> width a = nw"
  using assms by (auto simp: Array4D_def split: if_splits)

lemma Array4D_nested_success:
  fixes lit :: "('a::zero) list list list list"
  assumes fit: "in_int64 (literal_size lit)"
    and ne: "lit \<noteq> []" "hd lit \<noteq> []" "hd (hd lit) \<noteq> []"
    and a: "Array4D_nested ndebug lit = Inr a"
  shows "well_formed a \<and> planes a = int (length lit) \<and> depth a = int (length (hd lit))
       \<and> height a = int (length (hd (hd lit))) \<and> width a = int (length (hd (hd (hd lit))))
       \<and> (\<forall>p d h w. in_literal lit p d h w \<longrightarrow>
             in_range a (int p) (int d) (int h) (int w)
           \<and> elem a (int p) (int d) (int h) (int w) = lit ! p ! d ! h ! w)"
proof (cases ndebug)
  case False
  have rect: "rectangular lit"
    using Array4D_nested_debug[OF fit ne] a False by (cases "rectangular lit") auto
  then have r: "well_formed a" "planes a = int (length lit)" "depth a = int (length (hd lit))"
    "height a = int (length (hd (hd lit)))" "width a = int (length (hd (hd (hd lit))))"
    "\<forall>c\<in>valid a. elem4 a c = (case c of (p, d, h, w) \<Rightarrow> literal_at lit p d h w)"
    using Array4D_nested_debug[OF fit ne] a False by auto
  have "in_range a (int p) (int d) (int h) (int w)
      \<and> elem a (int p) (int d) (int h) (int w) = lit ! p ! d ! h ! w"
    if "in_literal lit p d h w" for p d h w
  proof -
    have ir: "in_range a (int p) (int d) (int h) (int w)"
      using rectangular_in_literal[OF rect that] r(2-5) by (simp add: in_range_def)
    then have "(int p, int d, int h, int w) \<in> valid a" by (simp add: valid_def)
    then have "elem4 a (int p, int d, int h, int w) = literal_at lit (int p) (int d) (int h) (int w)"
      using r(6) by fastforce
    then show ?thesis using ir by (simp add: elem4_def literal_at_def)
  qed
  then show ?thesis using r(1-5) by blast
next
  case True
  obtain a0 :: "'a array4d" where ctor: "Array4D (int (length lit)) (int (length (hd lit)))
            (int (length (hd (hd lit)))) (int (length (hd (hd (hd lit))))) = Inr a0"
    and split: "if fits a0 lit
          then (\<exists>a. Array4D_nested True lit = Inr a \<and> same_shape a a0
                 \<and> (\<forall>c\<in>literal_cells lit. elem4 a c = (case c of (p, d, h, w) \<Rightarrow> literal_at lit p d h w)))
          else Array4D_nested True lit = Inl IndexOutOfRange"
    using Array4D_nested_unchecked[OF fit ne] by blast
  have fits: "fits a0 lit" using split a True by (cases "fits a0 lit") auto
  then have s: "same_shape a a0"
    and cells: "\<forall>c\<in>literal_cells lit. elem4 a c = (case c of (p, d, h, w) \<Rightarrow> literal_at lit p d h w)"
    using split a True by auto
  have wf0: "well_formed a0"
    using fit ctor unfolding literal_size_def by (rule Array4D_well_formed)
  have wf: "well_formed a" using s wf0 by (rule same_shape_well_formed)
  have dims: "planes a = int (length lit)" "depth a = int (length (hd lit))"
    "height a = int (length (hd (hd lit)))" "width a = int (length (hd (hd (hd lit))))"
    using Array4D_dims[OF ctor] s by (simp_all add: same_shape_def)
  have "in_range a (int p) (int d) (int h) (int w)
      \<and> elem a (int p) (int d) (int h) (int w) = lit ! p ! d ! h ! w"
    if il: "in_literal lit p d h w" for p d h w
  proof -
    have ir: "in_range a (int p) (int d) (int h) (int w)"
      using fits_in_range[OF fits il] s by (simp add: same_shape_in_range)
    have "elem4 a (int p, int d, int h, int w) = literal_at lit (int p) (int d) (int h) (int w)"
      using cells in_literal_cells[OF il] by fastforce
    then show ?thesis using ir by (simp add: elem4_def literal_at_def)
  qed
  then show ?thesis using wf dims by blast
qed

lemma Array4D_nested_rectangular:
  fixes lit :: "('a::zero) list list list list"
  assumes fit: "in_int64 (literal_size lit)"
    and ne: "lit \<noteq> []" "hd lit \<noteq> []" "hd (hd lit) \<noteq> []" and rect: "rectangular lit"
  shows "\<exists>a. Array4D_nested ndebug lit = Inr a"
proof (cases ndebug)
  case False
  then show ?thesis using Array4D_nested_debug[OF fit ne] rect by auto
next
  case True
  obtain a0 :: "'a array4d" where ctor: "Array4D (int (length lit)) (int (length (hd lit)))
            (int (length (hd (hd lit)))) (int (length (hd (hd (hd lit))))) = Inr a0"
    and split: "if fits a0 lit
          then (\<exists>a. Array4D_nested True lit = Inr a \<and> same_shape a a0
                 \<and> (\<forall>c\<in>literal_cells lit. elem4 a c = (case c of (p, d, h, w) \<Rightarrow> literal_at lit p d h w)))
          else Array4D_nested True lit = Inl IndexOutOfRange"
    using Array4D_nested_unchecked[OF fit ne] by blast
  have "fits a0 lit" using rect Array4D_dims[OF ctor] by (intro rectangular_fits) auto
  then show ?thesis using split True by auto
qed

section \<open>Claims\<close>

text \<open>
  C1 (as amended). For every \<open>lhs\<close>, \<open>rhs\<close> and \<open>result\<close> whose backing storage has
  \<open>n1 * n2 * n3 * n4\<close> elements and which satisfy the shape preconditions, with \<open>result\<close>
  an object distinct from \<open>lhs\<close> and from \<open>rhs\<close>, \<open>MatrixMul\<close> completes, leaves every
  other object and the shape of \<open>result\<close> as they were, and every element
  \<open>result(b,d,i,j)\<close> is the sum over \<open>r\<close> of \<open>lhs(b,d,i,r) * rhs(b,d,r,j)\<close> accumulated
  in the element type, from zero, in increasing \<open>r\<close>: a value in which the prior
  contents of \<open>result\<close> do not occur.
\<close>

theorem C1_MatrixMul_product:
  fixes S :: "('a::{zero,plus,times}) store"
  assumes "result \<noteq> lhs" and "result \<noteq> rhs"
    and "well_formed (S lhs)" and "well_formed (S rhs)" and "well_formed (S result)"
    and "shapes_agree (S lhs) (S rhs) (S result)"
  shows "\<exists>S'. MatrixMul lhs rhs result S = Done S'
      \<and> (\<forall>x. x \<noteq> result \<longrightarrow> S' x = S x)
      \<and> well_formed (S' result) \<and> same_shape (S' result) (S result)
      \<and> (\<forall>b d i j. in_range (S result) b d i j \<longrightarrow>
            At (S' result) b d i j
              = Inr (foldl (\<lambda>acc r. acc + elem (S lhs) b d i r * elem (S rhs) b d r j) 0
                       (range0 (Width (S lhs)))))"
proof -
  obtain S' where S': "for_loop (\<lambda>b. for_loop (\<lambda>d. for_loop (\<lambda>i. for_loop (\<lambda>j.
             cell lhs rhs result b d i j)
           (range0 (Width (S rhs)))) (range0 (Height (S lhs))))
           (range0 (Depth (S result)))) (range0 (Batch (S result))) S = Done S'"
    "\<forall>x. x \<noteq> result \<longrightarrow> S' x = S x"
    "well_formed (S' result)" "same_shape (S' result) (S result)"
    "\<forall>b d i j. in_range (S result) b d i j \<longrightarrow>
        elem (S' result) b d i j = matrix_product (S lhs) (S rhs) b d i j"
    using MatrixMul_loops[OF assms] by blast
  have run: "MatrixMul lhs rhs result S = Done S'"
    using assms(6) S'(1) by (simp add: MatrixMul_def shapes_agree_def)
  have "At (S' result) b d i j
      = Inr (foldl (\<lambda>acc r. acc + elem (S lhs) b d i r * elem (S rhs) b d r j) 0
               (range0 (Width (S lhs))))"
    if r: "in_range (S result) b d i j" for b d i j
  proof -
    have "in_range (S' result) b d i j"
      using r S'(4) by (simp add: in_range_def same_shape_def)
    then have "At (S' result) b d i j = Inr (elem (S' result) b d i j)"
      using S'(3) by (rule At_in_range[rotated])
    then show ?thesis using S'(5) r by (simp add: matrix_product_def)
  qed
  then show ?thesis using run S'(2,3,4) by blast
qed

text \<open>
  The example of the specification: \<open>lhs\<close> of shape \<open>(1,1,2,3)\<close>, \<open>rhs\<close> of shape
  \<open>(1,1,3,2)\<close>, and a \<open>result\<close> of shape \<open>(1,1,2,2)\<close> that holds other values before.
\<close>

theorem C1_MatrixMul_product_witness:
  "\<exists>S'. MatrixMul 0 1 2 (store_of
        [\<lparr>planes = 1, depth = 1, height = 2, width = 3, vals = [1, 2, 3, 4, 5, 6 :: int]\<rparr>,
         \<lparr>planes = 1, depth = 1, height = 3, width = 2, vals = [7, 8, 9, 10, 11, 12]\<rparr>,
         \<lparr>planes = 1, depth = 1, height = 2, width = 2, vals = [100, 100, 100, 100]\<rparr>]) = Done S'
     \<and> At (S' 2) 0 0 0 0 = Inr 58 \<and> At (S' 2) 0 0 0 1 = Inr 64
     \<and> At (S' 2) 0 0 1 0 = Inr 139 \<and> At (S' 2) 0 0 1 1 = Inr 154"
proof -
  let ?S = "store_of
        [\<lparr>planes = 1, depth = 1, height = 2, width = 3, vals = [1, 2, 3, 4, 5, 6 :: int]\<rparr>,
         \<lparr>planes = 1, depth = 1, height = 3, width = 2, vals = [7, 8, 9, 10, 11, 12]\<rparr>,
         \<lparr>planes = 1, depth = 1, height = 2, width = 2, vals = [100, 100, 100, 100]\<rparr>]"
  have "\<exists>S'. MatrixMul 0 1 2 ?S = Done S'
      \<and> (\<forall>x. x \<noteq> 2 \<longrightarrow> S' x = ?S x)
      \<and> well_formed (S' 2) \<and> same_shape (S' 2) (?S 2)
      \<and> (\<forall>b d i j. in_range (?S 2) b d i j \<longrightarrow>
            At (S' 2) b d i j
              = Inr (foldl (\<lambda>acc r. acc + elem (?S 0) b d i r * elem (?S 1) b d r j) 0
                       (range0 (Width (?S 0)))))"
    by (rule C1_MatrixMul_product)
       (simp_all add: store_of_def well_formed_def n1_def n2_def n3_def n4_def shapes_agree_def
          Width_def Height_def Depth_def Batch_def)
  then obtain S' where S': "MatrixMul 0 1 2 ?S = Done S'"
    and cells: "\<And>b d i j. in_range (?S 2) b d i j \<Longrightarrow>
            At (S' 2) b d i j
              = Inr (foldl (\<lambda>acc r. acc + elem (?S 0) b d i r * elem (?S 1) b d r j) 0
                       (range0 (Width (?S 0))))"
    by blast
  have "At (S' 2) 0 0 0 0 = Inr 58" "At (S' 2) 0 0 0 1 = Inr 64"
    "At (S' 2) 0 0 1 0 = Inr 139" "At (S' 2) 0 0 1 1 = Inr 154"
    using cells[of 0 0 0 0] cells[of 0 0 0 1] cells[of 0 0 1 0] cells[of 0 0 1 1]
    by (simp_all add: store_of_def in_range_def Width_def range0_def elem_def linear_index_def
          upto.simps)
  then show ?thesis using S' by blast
qed

text \<open>
  C1 as stated fails when \<open>result\<close> is the object passed as \<open>lhs\<close> and \<open>rhs\<close>: the call
  \<^verbatim>\<open>MatrixMul(a, a, a)\<close> on \<open>[[1,2],[3,4]]\<close> satisfies every precondition and leaves
  \<open>[[6,0],[0,0]]\<close>, while the entry \<open>(0,0)\<close> of the product is \<open>7\<close>.
\<close>

theorem C1_aliasing_counterexample:
  "well_formed \<lparr>planes = 1, depth = 1, height = 2, width = 2, vals = [1, 2, 3, 4 :: int]\<rparr>
 \<and> shapes_agree \<lparr>planes = 1, depth = 1, height = 2, width = 2, vals = [1, 2, 3, 4 :: int]\<rparr>
      \<lparr>planes = 1, depth = 1, height = 2, width = 2, vals = [1, 2, 3, 4 :: int]\<rparr>
      \<lparr>planes = 1, depth = 1, height = 2, width = 2, vals = [1, 2, 3, 4 :: int]\<rparr>
 \<and> MatrixMul 0 0 0 (store_of
      [\<lparr>planes = 1, depth = 1, height = 2, width = 2, vals = [1, 2, 3, 4 :: int]\<rparr>])
    = Done (store_of
      [\<lparr>planes = 1, depth = 1, height = 2, width = 2, vals = [6, 0, 0, 0 :: int]\<rparr>])
 \<and> matrix_product \<lparr>planes = 1, depth = 1, height = 2, width = 2, vals = [1, 2, 3, 4 :: int]\<rparr>
      \<lparr>planes = 1, depth = 1, height = 2, width = 2, vals = [1, 2, 3, 4 :: int]\<rparr> 0 0 0 0 = 7"
  by (simp add: well_formed_def n1_def n2_def n3_def n4_def shapes_agree_def matrix_product_def
        MatrixMul_def cell_def accumulate_def store_put_def At_def At_put_def linear_index_def
        range0_def Width_def Height_def Depth_def Batch_def upto.simps store_of_def elem_def
        fun_eq_iff)

text \<open>
  C2 (as amended). The length of the backing storage equals \<open>n1 * n2 * n3 * n4\<close> after
  every constructor that returns a container (sized, value-filled, from a vector, from a
  container, from a nested literal), provided the product of the four dimensions the
  constructor is given (for a nested literal, of the four lengths it reads) fits in
  \<^verbatim>\<open>int64\<close>; and every mutating operation (\<open>SetValues\<close>, \<open>Fill\<close>, \<open>FillIota\<close>, \<open>FillRandom\<close>,
  \<open>FillWithMultiples\<close>, \<open>mul\<close>, \<open>FillWithYX\<close>, \<open>FillWithPZ\<close>, \<open>FillWithMinorDimNum\<close>, the
  elementwise product) takes a container with that property to one with that property,
  whether the operation completes or aborts; \<open>num_elements\<close> returns that product.
\<close>

theorem C2_storage_invariant:
  fixes a rhs :: "('a::{zero,one,plus,times}) array4d"
  shows "(in_int64 (np * nd * nh * nw) \<longrightarrow>
          (\<forall>b :: 'a array4d. Array4D np nd nh nw = Inr b \<longrightarrow> well_formed b)
        \<and> (\<forall>b. Array4D_value np nd nh nw v = Inr b \<longrightarrow> well_formed b)
        \<and> (\<forall>b. Array4D_vector np nd nh nw xs = Inr b \<longrightarrow> well_formed b)
        \<and> (\<forall>b. Array4D_container np nd nh nw xs = Inr b \<longrightarrow> well_formed b))
   \<and> (in_int64 (literal_size lit) \<longrightarrow>
          (\<forall>b. Array4D_nested ndebug lit = Inr b \<longrightarrow> well_formed b))
   \<and> (well_formed a \<longrightarrow>
        num_elements a = n1 a * n2 a * n3 a * n4 a
      \<and> well_formed (state_of (SetValues xs a))
      \<and> well_formed (Fill v a)
      \<and> well_formed (FillIota v a)
      \<and> well_formed (FillRandom init sample to_double cast v mean seed a)
      \<and> well_formed (FillWithMultiples multiple multiplier a)
      \<and> well_formed (mul scale multiplier a)
      \<and> well_formed (state_of (FillWithYX src a))
      \<and> well_formed (state_of (FillWithPZ src a))
      \<and> well_formed (state_of (FillWithMinorDimNum from_index a))
      \<and> well_formed (state_of (op_mult ndebug rhs a)))"
proof -
  have c: "(\<forall>b :: 'a array4d. Array4D np nd nh nw = Inr b \<longrightarrow> well_formed b)
        \<and> (\<forall>b. Array4D_value np nd nh nw v = Inr b \<longrightarrow> well_formed b)
        \<and> (\<forall>b. Array4D_vector np nd nh nw xs = Inr b \<longrightarrow> well_formed b)
        \<and> (\<forall>b. Array4D_container np nd nh nw xs = Inr b \<longrightarrow> well_formed b)"
    if fit: "in_int64 (np * nd * nh * nw)"
  proof (intro conjI)
    note p = dims_product_exact[OF fit]
    show "\<forall>b :: 'a array4d. Array4D np nd nh nw = Inr b \<longrightarrow> well_formed b"
      using Array4D_well_formed[OF fit] by blast
    show "\<forall>b. Array4D_value np nd nh nw v = Inr b \<longrightarrow> well_formed b"
      by (auto simp: Array4D_value_def p well_formed_def n1_def n2_def n3_def n4_def
          split: if_splits)
    show "\<forall>b. Array4D_vector np nd nh nw xs = Inr b \<longrightarrow> well_formed b"
      by (auto simp: Array4D_vector_def p well_formed_def n1_def n2_def n3_def n4_def
          split: if_splits)
    show "\<forall>b. Array4D_container np nd nh nw xs = Inr b \<longrightarrow> well_formed b"
      by (auto simp: Array4D_container_def Array4D_def p SetValues_def num_elements_def
          well_formed_def n1_def n2_def n3_def n4_def split: if_splits sum.splits outcome.splits)
  qed
  have l: "\<forall>b. Array4D_nested ndebug lit = Inr b \<longrightarrow> well_formed b"
    if fit: "in_int64 (literal_size lit)"
    using Array4D_nested_well_formed[OF fit] by blast
  have m: "num_elements a = n1 a * n2 a * n3 a * n4 a
      \<and> well_formed (state_of (SetValues xs a))
      \<and> well_formed (Fill v a)
      \<and> well_formed (FillIota v a)
      \<and> well_formed (FillRandom init sample to_double cast v mean seed a)
      \<and> well_formed (FillWithMultiples multiple multiplier a)
      \<and> well_formed (mul scale multiplier a)
      \<and> well_formed (state_of (FillWithYX src a))
      \<and> well_formed (state_of (FillWithPZ src a))
      \<and> well_formed (state_of (FillWithMinorDimNum from_index a))
      \<and> well_formed (state_of (op_mult ndebug rhs a))" if wf: "well_formed a"
  proof (intro conjI)
    show "num_elements a = n1 a * n2 a * n3 a * n4 a"
      using wf by (simp add: num_elements_def well_formed_def)
    show "well_formed (state_of (SetValues xs a))"
      using wf by (simp add: SetValues_def state_of_def num_elements_def well_formed_update)
    show "well_formed (Fill v a)"
      using wf by (simp add: Fill_def well_formed_update)
    show "well_formed (FillIota v a)"
      using wf by (simp add: FillIota_def well_formed_update)
    show "well_formed (FillRandom init sample to_double cast v mean seed a)"
      using wf by (simp add: FillRandom_def well_formed_update)
    show "well_formed (FillWithMultiples multiple multiplier a)"
      using wf by (simp add: FillWithMultiples_def well_formed_update)
    show "well_formed (mul scale multiplier a)"
      using wf by (simp add: mul_def well_formed_update)
    show "well_formed (state_of (FillWithYX src a))"
      using wf FillWithYX_same_shape same_shape_well_formed by blast
    show "well_formed (state_of (FillWithPZ src a))"
      using wf FillWithPZ_same_shape same_shape_well_formed by blast
    show "well_formed (state_of (FillWithMinorDimNum from_index a))"
      using wf FillWithMinorDimNum_same_shape same_shape_well_formed by blast
    show "well_formed (state_of (op_mult ndebug rhs a))"
      using wf op_mult_same_shape same_shape_well_formed by blast
  qed
  show ?thesis using c l m by blast
qed

theorem C2_storage_invariant_witness:
  "in_int64 (2 * 1 * 3 * 1)
 \<and> (\<exists>b :: int array4d. Array4D 2 1 3 1 = Inr b \<and> well_formed b)
 \<and> (\<exists>b. Array4D_vector 2 1 3 1 [1, 2, 3, 4, 5, 6 :: int] = Inr b \<and> well_formed b)
 \<and> in_int64 (literal_size [[[[1, 2 :: int]], [[3, 4]]]])
 \<and> (\<exists>b. Array4D_nested False [[[[1, 2 :: int]], [[3, 4]]]] = Inr b \<and> well_formed b)
 \<and> num_elements \<lparr>planes = 1, depth = 2, height = 1, width = 2, vals = [1, 2, 3, 4 :: int]\<rparr> = 4
 \<and> well_formed (FillIota 7 \<lparr>planes = 1, depth = 2, height = 1, width = 2, vals = [1, 2, 3, 4 :: int]\<rparr>)
 \<and> well_formed (state_of (FillWithMinorDimNum (\<lambda>n. n)
       \<lparr>planes = 1, depth = 2, height = 1, width = 2, vals = [1, 2, 3, 4 :: int]\<rparr>))
 \<and> well_formed (state_of (op_mult False
       \<lparr>planes = 1, depth = 2, height = 1, width = 2, vals = [5, 6, 7, 8 :: int]\<rparr>
       \<lparr>planes = 1, depth = 2, height = 1, width = 2, vals = [1, 2, 3, 4 :: int]\<rparr>))"
proof -
  let ?a = "\<lparr>planes = 1, depth = 2, height = 1, width = 2, vals = [1, 2, 3, 4 :: int]\<rparr>"
  let ?r = "\<lparr>planes = 1, depth = 2, height = 1, width = 2, vals = [5, 6, 7, 8 :: int]\<rparr>"
  let ?lit = "[[[[1, 2 :: int]], [[3, 4]]]]"
  have wf: "well_formed ?a" by (simp add: well_formed_def n1_def n2_def n3_def n4_def)
  have n: "n1 ?a * n2 ?a * n3 ?a * n4 ?a = 4" by (simp add: n1_def n2_def n3_def n4_def)
  have f1: "in_int64 (2 * 1 * 3 * 1)" by (simp add: in_int64_def)
  have f2: "in_int64 (literal_size ?lit)" by (simp add: in_int64_def literal_size_def)
  note t = C2_storage_invariant[where a = ?a and rhs = ?r and v = 7 and np = 2 and nd = 1 and nh = 3
        and nw = 1 and xs = "[1, 2, 3, 4, 5, 6]" and ndebug = False and lit = ?lit
        and init = "\<lambda>seed mean stddev. seed" and sample = "\<lambda>g. (0, g)" and to_double = "\<lambda>x. 0"
        and cast = "\<lambda>x. 0" and mean = 0 and seed = 12345
        and multiple = "\<lambda>i m. i * m" and scale = "\<lambda>v m. v * m" and multiplier = "3 :: int"
        and from_index = "\<lambda>n. n" and ?'b = int
        and src = "\<lparr>height2 = 1, width2 = 2, at2 = (\<lambda>h w. Inr 0)\<rparr>"]
  have c: "\<forall>b :: int array4d. Array4D 2 1 3 1 = Inr b \<longrightarrow> well_formed b"
    "\<forall>b. Array4D_vector 2 1 3 1 [1, 2, 3, 4, 5, 6 :: int] = Inr b \<longrightarrow> well_formed b"
    using t f1 by blast+
  have l: "\<forall>b. Array4D_nested False ?lit = Inr b \<longrightarrow> well_formed b"
    using t f2 by blast
  have m: "num_elements ?a = n1 ?a * n2 ?a * n3 ?a * n4 ?a"
      "well_formed (FillIota 7 ?a)"
      "well_formed (state_of (FillWithMinorDimNum (\<lambda>n. n) ?a))"
      "well_formed (state_of (op_mult False ?r ?a))"
    using t wf by blast+
  have "Array4D 2 1 3 1 = Inr \<lparr>planes = 2, depth = 1, height = 3, width = 1,
      vals = [0, 0, 0, 0, 0, 0 :: int]\<rparr>"
    by code_simp
  then have 1: "\<exists>b :: int array4d. Array4D 2 1 3 1 = Inr b \<and> well_formed b"
    using c(1) by blast
  have "Array4D_vector 2 1 3 1 [1, 2, 3, 4, 5, 6 :: int]
      = Inr \<lparr>planes = 2, depth = 1, height = 3, width = 1, vals = [1, 2, 3, 4, 5, 6]\<rparr>"
    by code_simp
  then have 2: "\<exists>b. Array4D_vector 2 1 3 1 [1, 2, 3, 4, 5, 6 :: int] = Inr b \<and> well_formed b"
    using c(2) by blast
  have "Array4D_nested False ?lit
      = Inr \<lparr>planes = 1, depth = 2, height = 1, width = 2, vals = [1, 2, 3, 4]\<rparr>"
    by code_simp
  then have 3: "\<exists>b. Array4D_nested False ?lit = Inr b \<and> well_formed b"
    using l by blast
  have 4: "num_elements ?a = 4" using m(1) n by simp
  show ?thesis using f1 1 2 f2 3 4 m(2-4) by blast
qed

text \<open>
  C2 as stated fails for the constructors when the product of the dimensions does not
  fit in \<^verbatim>\<open>int64\<close>: with the dimensions \<open>(2^32, 2^32, 1, 1)\<close> the product wraps to zero, so
  the sized constructor and the constructor from an empty vector both return a
  container of no elements whose dimensions multiply to \<open>2^64\<close>.
\<close>

theorem C2_overflow_counterexample:
  "Array4D 4294967296 4294967296 1 1
     = Inr \<lparr>planes = 4294967296, depth = 4294967296, height = 1, width = 1, vals = ([] :: int list)\<rparr>
 \<and> Array4D_vector 4294967296 4294967296 1 1 ([] :: int list)
     = Inr \<lparr>planes = 4294967296, depth = 4294967296, height = 1, width = 1, vals = []\<rparr>
 \<and> \<not> well_formed
       \<lparr>planes = 4294967296, depth = 4294967296, height = 1, width = 1, vals = ([] :: int list)\<rparr>
 \<and> num_elements
       \<lparr>planes = 4294967296, depth = 4294967296, height = 1, width = 1, vals = ([] :: int list)\<rparr> = 0
 \<and> n1 \<lparr>planes = 4294967296, depth = 4294967296, height = 1, width = 1, vals = ([] :: int list)\<rparr>
     * n2 \<lparr>planes = 4294967296, depth = 4294967296, height = 1, width = 1, vals = ([] :: int list)\<rparr>
     * n3 \<lparr>planes = 4294967296, depth = 4294967296, height = 1, width = 1, vals = ([] :: int list)\<rparr>
     * n4 \<lparr>planes = 4294967296, depth = 4294967296, height = 1, width = 1, vals = ([] :: int list)\<rparr>
     = 18446744073709551616"
  by (simp add: Array4D_def Array4D_vector_def dims_product_def int64_def well_formed_def
        num_elements_def n1_def n2_def n3_def n4_def)

text \<open>
  C3. Whenever one of the shape preconditions is violated, \<open>MatrixMul\<close> aborts with
  \<open>ShapeMismatch\<close> and the store at the abort is the store it was called with: no
  element of \<open>result\<close> (or of anything else) has been written.
\<close>

theorem C3_MatrixMul_shape_mismatch:
  "Width (S lhs) \<noteq> Height (S rhs) \<or> Height (S lhs) \<noteq> Height (S result)
     \<or> Width (S rhs) \<noteq> Width (S result)
     \<or> Depth (S lhs) \<noteq> Depth (S rhs) \<or> Depth (S rhs) \<noteq> Depth (S result)
     \<or> Batch (S lhs) \<noteq> Batch (S rhs) \<or> Batch (S rhs) \<noteq> Batch (S result)
   \<Longrightarrow> MatrixMul lhs rhs result S = Abort ShapeMismatch S"
  by (auto simp: MatrixMul_def)

theorem C3_MatrixMul_shape_mismatch_witness:
  "MatrixMul 0 1 2 (store_of
        [\<lparr>planes = 1, depth = 1, height = 2, width = 3, vals = [1, 2, 3, 4, 5, 6 :: int]\<rparr>,
         \<lparr>planes = 1, depth = 1, height = 2, width = 2, vals = [7, 8, 9, 10]\<rparr>,
         \<lparr>planes = 1, depth = 1, height = 2, width = 2, vals = [100, 100, 100, 100]\<rparr>])
   = Abort ShapeMismatch (store_of
        [\<lparr>planes = 1, depth = 1, height = 2, width = 3, vals = [1, 2, 3, 4, 5, 6 :: int]\<rparr>,
         \<lparr>planes = 1, depth = 1, height = 2, width = 2, vals = [7, 8, 9, 10]\<rparr>,
         \<lparr>planes = 1, depth = 1, height = 2, width = 2, vals = [100, 100, 100, 100]\<rparr>])"
  by (rule C3_MatrixMul_shape_mismatch) (simp add: store_of_def Width_def Height_def)

text \<open>
  C4 (as amended). When the product of the dimensions fits in \<^verbatim>\<open>int64\<close>, the constructor
  from dimensions and a flat sequence \<open>S\<close> fails with \<open>ShapeMismatch\<close> when the length of
  \<open>S\<close> differs from that product, and succeeds with those dimensions when the lengths
  match. Whenever the constructor succeeds, \<open>flatten\<close> returns exactly \<open>S\<close>, element \<open>i\<close>
  of the sequence sitting at linear index \<open>i\<close>.
\<close>

theorem C4_flat_sequence_roundtrip:
  "(in_int64 (k1 * k2 * k3 * k4) \<longrightarrow>
      (int (length S) \<noteq> k1 * k2 * k3 * k4 \<longrightarrow> Array4D_vector k1 k2 k3 k4 S = Inl ShapeMismatch)
    \<and> (int (length S) = k1 * k2 * k3 * k4 \<longrightarrow>
        (\<exists>a. Array4D_vector k1 k2 k3 k4 S = Inr a
           \<and> n1 a = k1 \<and> n2 a = k2 \<and> n3 a = k3 \<and> n4 a = k4)))
 \<and> (\<forall>a. Array4D_vector k1 k2 k3 k4 S = Inr a \<longrightarrow>
        flatten a = S \<and> (\<forall>i < length S. vals a ! i = S ! i))"
proof -
  have sized: "(int (length S) \<noteq> k1 * k2 * k3 * k4 \<longrightarrow> Array4D_vector k1 k2 k3 k4 S = Inl ShapeMismatch)
    \<and> (int (length S) = k1 * k2 * k3 * k4 \<longrightarrow>
        (\<exists>a. Array4D_vector k1 k2 k3 k4 S = Inr a
           \<and> n1 a = k1 \<and> n2 a = k2 \<and> n3 a = k3 \<and> n4 a = k4))"
    if fit: "in_int64 (k1 * k2 * k3 * k4)"
    by (simp add: Array4D_vector_def dims_product_exact[OF fit] n1_def n2_def n3_def n4_def)
  have flat: "flatten a = S \<and> (\<forall>i < length S. vals a ! i = S ! i)"
    if "Array4D_vector k1 k2 k3 k4 S = Inr a" for a
  proof -
    have "vals a = S" using that by (auto simp: Array4D_vector_def split: if_splits)
    then show ?thesis by (simp add: flatten_def)
  qed
  show ?thesis using sized flat by blast
qed

theorem C4_flat_sequence_roundtrip_witness:
  "in_int64 (1 * 1 * 2 * 2)
 \<and> Array4D_vector 1 1 2 2 [1, 2, 3 :: int] = Inl ShapeMismatch
 \<and> in_int64 (1 * 2 * 1 * 2)
 \<and> (\<exists>a. Array4D_vector 1 2 1 2 [5, 6, 7, 8 :: int] = Inr a \<and> flatten a = [5, 6, 7, 8]
        \<and> n1 a = 1 \<and> n2 a = 2 \<and> n3 a = 1 \<and> n4 a = 2)"
proof -
  have f: "in_int64 (1 * 1 * 2 * 2)" "in_int64 (1 * 2 * 1 * 2)"
    by (simp_all add: in_int64_def)
  have 1: "Array4D_vector 1 1 2 2 [1, 2, 3 :: int] = Inl ShapeMismatch"
    using C4_flat_sequence_roundtrip [of 1 1 2 2 "[1, 2, 3 :: int]"] f(1) by simp
  have 2: "\<exists>a. Array4D_vector 1 2 1 2 [5, 6, 7, 8 :: int] = Inr a \<and> flatten a = [5, 6, 7, 8]
        \<and> n1 a = 1 \<and> n2 a = 2 \<and> n3 a = 1 \<and> n4 a = 2"
    using C4_flat_sequence_roundtrip [of 1 2 1 2 "[5, 6, 7, 8 :: int]"] f(2) by auto
  show ?thesis using f 1 2 by blast
qed

text \<open>
  C4 as stated fails when the product of the dimensions does not fit in \<^verbatim>\<open>int64\<close>: with
  the dimensions \<open>(2^32, 2^32, 1, 1)\<close> the product \<open>2^64\<close> wraps to zero and the empty
  sequence, whose length differs from \<open>2^64\<close>, is accepted.
\<close>

theorem C4_overflow_counterexample:
  "int (length ([] :: int list)) \<noteq> 4294967296 * 4294967296 * 1 * 1
 \<and> Array4D_vector 4294967296 4294967296 1 1 ([] :: int list)
     = Inr \<lparr>planes = 4294967296, depth = 4294967296, height = 1, width = 1, vals = []\<rparr>"
  by (simp add: Array4D_vector_def dims_product_def int64_def)

text \<open>
  C5 (as amended). \<open>op_eq\<close> is false whenever one of the four dimensions differs,
  whatever the contents; for two containers that satisfy the storage invariant and agree
  on all four dimensions it is true exactly when at every flat index the absolute
  difference of the two elements is strictly below the value of the \<^verbatim>\<open>float\<close> literal
  \<^verbatim>\<open>0.000001f\<close>, which is \<open>8796093 / 2 ^ 43\<close>.
\<close>

theorem C5_equals:
  fixes a b :: "('a::{minus,abs,ord,inverse,numeral}) array4d"
  shows "(n1 a \<noteq> n1 b \<or> n2 a \<noteq> n2 b \<or> n3 a \<noteq> n3 b \<or> n4 a \<noteq> n4 b \<longrightarrow> \<not> op_eq a b)
   \<and> (well_formed a \<and> well_formed b \<and> n1 a = n1 b \<and> n2 a = n2 b \<and> n3 a = n3 b \<and> n4 a = n4 b \<longrightarrow>
        (op_eq a b \<longleftrightarrow>
          (\<forall>i < length (flatten a). \<bar>flatten a ! i - flatten b ! i\<bar> < 8796093 / 8796093022208)))"
proof (intro conjI impI)
  assume "n1 a \<noteq> n1 b \<or> n2 a \<noteq> n2 b \<or> n3 a \<noteq> n3 b \<or> n4 a \<noteq> n4 b"
  then show "\<not> op_eq a b"
    by (auto simp: op_eq_def n1_def n2_def n3_def n4_def)
next
  assume h: "well_formed a \<and> well_formed b \<and> n1 a = n1 b \<and> n2 a = n2 b \<and> n3 a = n3 b \<and> n4 a = n4 b"
  then have "num_elements a = num_elements b"
    by (simp add: well_formed_def num_elements_def)
  then have "op_eq a b = eq_loop (vals a) (vals b) 0 True"
    using h by (simp add: op_eq_def n1_def n2_def n3_def n4_def)
  then show "op_eq a b \<longleftrightarrow>
      (\<forall>i < length (flatten a). \<bar>flatten a ! i - flatten b ! i\<bar> < 8796093 / 8796093022208)"
    by (simp add: eq_loop_all flatten_def tolerance_def)
qed

theorem C5_equals_witness:
  "\<not> op_eq \<lparr>planes = 1, depth = 1, height = 1, width = 2, vals = [1, 2 :: rat]\<rparr>
           \<lparr>planes = 1, depth = 1, height = 2, width = 1, vals = [1, 2]\<rparr>
 \<and> op_eq \<lparr>planes = 1, depth = 1, height = 1, width = 2, vals = [1, 2 :: rat]\<rparr>
         \<lparr>planes = 1, depth = 1, height = 1, width = 2, vals = [1, 2 + 1 / 2000000]\<rparr>
 \<and> \<not> op_eq \<lparr>planes = 1, depth = 1, height = 1, width = 2, vals = [1, 2 :: rat]\<rparr>
         \<lparr>planes = 1, depth = 1, height = 1, width = 2, vals = [1, 2 + 1 / 1000000]\<rparr>"
proof -
  have all2: "(\<forall>i<Suc (Suc 0). P i) \<longleftrightarrow> P 0 \<and> P (Suc 0)" for P :: "nat \<Rightarrow> bool"
    by (auto simp: less_Suc_eq)
  show ?thesis
    using C5_equals [of "\<lparr>planes = 1, depth = 1, height = 1, width = 2, vals = [1, 2 :: rat]\<rparr>"
           "\<lparr>planes = 1, depth = 1, height = 2, width = 1, vals = [1, 2]\<rparr>"]
      C5_equals [of "\<lparr>planes = 1, depth = 1, height = 1, width = 2, vals = [1, 2 :: rat]\<rparr>"
           "\<lparr>planes = 1, depth = 1, height = 1, width = 2, vals = [1, 2 + 1 / 2000000]\<rparr>"]
      C5_equals [of "\<lparr>planes = 1, depth = 1, height = 1, width = 2, vals = [1, 2 :: rat]\<rparr>"
           "\<lparr>planes = 1, depth = 1, height = 1, width = 2, vals = [1, 2 + 1 / 1000000]\<rparr>"]
    by (simp add: n1_def n2_def n3_def n4_def well_formed_def flatten_def all2)
qed

text \<open>
  C5 as stated names the bound \<open>1e-6\<close>. Two one-element containers holding \<open>0\<close> and
  \<open>8796093 / 2 ^ 43\<close> differ by less than \<open>1 / 1000000\<close>, and \<open>op_eq\<close> is false on them.
\<close>

theorem C5_tolerance_counterexample:
  "well_formed \<lparr>planes = 1, depth = 1, height = 1, width = 1, vals = [0 :: rat]\<rparr>
 \<and> well_formed \<lparr>planes = 1, depth = 1, height = 1, width = 1, vals = [8796093 / 8796093022208 :: rat]\<rparr>
 \<and> \<bar>(0 :: rat) - 8796093 / 8796093022208\<bar> < 1 / 1000000
 \<and> \<not> op_eq \<lparr>planes = 1, depth = 1, height = 1, width = 1, vals = [0 :: rat]\<rparr>
      \<lparr>planes = 1, depth = 1, height = 1, width = 1, vals = [8796093 / 8796093022208]\<rparr>"
  by (simp add: well_formed_def n1_def n2_def n3_def n4_def op_eq_def num_elements_def
        eq_loop_all tolerance_def)

text \<open>
  C6. The specification asks the elementwise product to fail with \<open>ShapeMismatch\<close> on
  operands of different dimensions. The code reaches \<^verbatim>\<open>assert(false)\<close> there, which is
  empty in a build with \<^verbatim>\<open>NDEBUG\<close>: multiplying a \<open>(1,1,2,1)\<close> container by a \<open>(1,1,1,2)\<close>
  one returns normally and leaves the container as it was. (Lemma \<open>op_mult_mismatch\<close> is
  the general statement for both builds, and \<open>op_mult_product\<close> the in-place product for
  equal dimensions.)
\<close>

theorem C6_op_mult_mismatch_returns:
  "op_mult True \<lparr>planes = 1, depth = 1, height = 1, width = 2, vals = [3, 4 :: int]\<rparr>
                \<lparr>planes = 1, depth = 1, height = 2, width = 1, vals = [1, 2]\<rparr>
   = Done \<lparr>planes = 1, depth = 1, height = 2, width = 1, vals = [1, 2]\<rparr>"
  by (simp add: op_mult_def size_dim_def)

text \<open>
  C7. The specification asks nested-literal construction to fail with \<open>RaggedShape\<close>
  whenever a sibling list has a different length than the first list of its level. The
  length checks of the code are \<^verbatim>\<open>DCHECK_EQ\<close>, which a build with \<^verbatim>\<open>NDEBUG\<close> does not
  contain: the literal \<open>{{{{1,2},{3}}}}\<close>, whose second row is shorter than the first,
  is accepted there and yields a \<open>(1,1,2,2)\<close> container holding \<open>1, 2, 3, 0\<close>, while the
  debug build rejects it. (Lemma \<open>Array4D_nested_debug\<close> is the general statement for
  the debug build: a literal that is not rectangular fails with \<open>RaggedShape\<close>, a
  rectangular one is constructed; lemma \<open>Array4D_nested_success\<close> gives the dimensions
  and the placement of the elements whenever the constructor succeeds, in both builds.)
\<close>

theorem C7_nested_ragged_accepted:
  "Array4D_nested True [[[[1, 2], [3 :: int]]]]
     = Inr \<lparr>planes = 1, depth = 1, height = 2, width = 2, vals = [1, 2, 3, 0]\<rparr>
 \<and> Array4D_nested False [[[[1, 2], [3 :: int]]]] = Inl RaggedShape"
  by code_simp



text \<open>
  C9. For two containers of the same shape, the random fill with the same seed, mean and
  deviation produces the same sequence of elements: the result depends on the container
  only through the number of its elements.
\<close>

theorem C9_FillRandom_deterministic:
  assumes "well_formed a" and "well_formed b"
    and "n1 a = n1 b" and "n2 a = n2 b" and "n3 a = n3 b" and "n4 a = n4 b"
  shows "flatten (FillRandom init sample to_double cast v mean seed a)
       = flatten (FillRandom init sample to_double cast v mean seed b)"
proof -
  have "int (length (vals a)) = int (length (vals b))"
    using assms by (simp add: well_formed_def)
  then have "length (vals a) = length (vals b)" by simp
  then show ?thesis
    by (simp add: FillRandom_def flatten_def random_loop_length_only[of "vals a" "vals b"])
qed

theorem C9_FillRandom_deterministic_witness:
  "flatten (FillRandom (\<lambda>seed mean stddev. (seed, mean, stddev))
              (\<lambda>(s, m, sd). (m + sd * real_of_int (s mod 7), (5 * s + 3, m, sd)))
              (\<lambda>x. x) (\<lambda>x. x) 2 1 12345
              \<lparr>planes = 1, depth = 1, height = 1, width = 2, vals = [0, 0 :: real]\<rparr>)
 = flatten (FillRandom (\<lambda>seed mean stddev. (seed, mean, stddev))
              (\<lambda>(s, m, sd). (m + sd * real_of_int (s mod 7), (5 * s + 3, m, sd)))
              (\<lambda>x. x) (\<lambda>x. x) 2 1 12345
              \<lparr>planes = 1, depth = 1, height = 1, width = 2, vals = [8, 9 :: real]\<rparr>)"
  by (rule C9_FillRandom_deterministic)
     (simp_all add: well_formed_def n1_def n2_def n3_def n4_def)

text \<open>
  C10 (as amended). The nested-list constructor reads the lengths of the first plane, of
  the first depth entry and of the first height row before any check. When the
  outermost list, the first plane or the first depth entry is empty, the begin iterator
  of an empty list is dereferenced and the outcome is undefined, in both builds; no
  error is reported. When the three are non-empty and the product of the four lengths
  read fits in \<^verbatim>\<open>int64\<close>, the outcome is never undefined.
\<close>

theorem C10_nested_undefined:
  fixes lit :: "('a::zero) list list list list"
  shows "(lit = [] \<or> hd lit = [] \<or> hd (hd lit) = [] \<longrightarrow> Array4D_nested ndebug lit = Inl Undefined)
     \<and> (in_int64 (literal_size lit) \<and> Array4D_nested ndebug lit = Inl Undefined \<longrightarrow>
          lit = [] \<or> hd lit = [] \<or> hd (hd lit) = [])"
proof (intro conjI impI)
  assume "lit = [] \<or> hd lit = [] \<or> hd (hd lit) = []"
  then show "Array4D_nested ndebug lit = Inl Undefined"
    by (rule Array4D_nested_empty)
next
  assume "in_int64 (literal_size lit) \<and> Array4D_nested ndebug lit = Inl Undefined"
  then show "lit = [] \<or> hd lit = [] \<or> hd (hd lit) = []"
    using Array4D_nested_defined[of lit ndebug] by blast
qed

theorem C10_nested_undefined_witness:
  "in_int64 (literal_size ([] :: int list list list list))
 \<and> Array4D_nested False ([] :: int list list list list) = Inl Undefined
 \<and> Array4D_nested False ([[]] :: int list list list list) = Inl Undefined
 \<and> Array4D_nested False ([[[]]] :: int list list list list) = Inl Undefined
 \<and> in_int64 (literal_size [[[[5 :: int]]]])
 \<and> Array4D_nested False [[[[5 :: int]]]] \<noteq> Inl Undefined"
proof -
  have f: "in_int64 (literal_size [[[[5 :: int]]]])"
    "in_int64 (literal_size ([] :: int list list list list))"
    by (simp_all add: in_int64_def literal_size_def)
  show ?thesis
    using C10_nested_undefined[of "[] :: int list list list list" False]
      C10_nested_undefined[of "[[]] :: int list list list list" False]
      C10_nested_undefined[of "[[[]]] :: int list list list list" False]
      C10_nested_undefined[of "[[[[5 :: int]]]]" False] f
    by simp
qed

text \<open>
  C10 as stated lists the first height row among the lists that must not be empty; the
  literal \<open>{{{{}}}}\<close> is constructed without undefined behaviour, as a \<open>(1,1,1,0)\<close>
  container. And a literal with every list non-empty is not enough for a defined
  outcome: when the first list of each level has \<open>65536\<close> entries, the product of the
  lengths is \<open>2^64\<close>, which wraps to zero, and the first element is written into a
  vector of no elements.
\<close>

theorem C10_innermost_counterexample:
  "Array4D_nested False ([[[[]]]] :: int list list list list)
     = Inr \<lparr>planes = 1, depth = 1, height = 1, width = 0, vals = []\<rparr>
 \<and> Array4D_nested True ([[[[]]]] :: int list list list list)
     = Inr \<lparr>planes = 1, depth = 1, height = 1, width = 0, vals = []\<rparr>
 \<and> Array4D_nested False
      (((((0 :: int) # replicate 65535 0) # replicate 65535 []) # replicate 65535 [])
        # replicate 65535 []) = Inl Undefined
 \<and> Array4D_nested True
      (((((0 :: int) # replicate 65535 0) # replicate 65535 []) # replicate 65535 [])
        # replicate 65535 []) = Inl Undefined"
proof -
  have 1: "Array4D_nested False ([[[[]]]] :: int list list list list)
     = Inr \<lparr>planes = 1, depth = 1, height = 1, width = 0, vals = []\<rparr>"
    "Array4D_nested True ([[[[]]]] :: int list list list list)
     = Inr \<lparr>planes = 1, depth = 1, height = 1, width = 0, vals = []\<rparr>"
    by code_simp+
  have 2: "Array4D_nested ndebug
      (((((0 :: int) # replicate 65535 0) # replicate 65535 []) # replicate 65535 [])
        # replicate 65535 []) = Inl Undefined" for ndebug
    by (rule Array4D_nested_no_storage) (simp_all add: dims_product_def int64_def)
  show ?thesis using 1 2 by simp
qed

end
